theory Spec2Isabelle
  imports Main
begin

section \<open>Values, objects and the store\<close>

text \<open>
  The helpers of \<^verbatim>\<open>lib/utils/utils.js\<close> read a syntax tree whose nodes are plain
  JavaScript objects. A node is known by its identity (the source compares nodes with
  \<^verbatim>\<open>===\<close>) and points back to its parent, so nodes live in a store: an address
  names an object, an object maps its own property names to values; an address that a
  tree does not use names an object without properties. The arrays
  of a tree (\<^verbatim>\<open>arguments\<close>, \<^verbatim>\<open>properties\<close>, \<^verbatim>\<open>body\<close>) are never compared or
  written by the source and are held as values.

  Numbers are the integers (line numbers, lengths, order values, integer literals);
  \<^verbatim>\<open>NaN\<close>, the infinities and fractions are not represented. Properties inherited
  from a prototype (methods such as \<^verbatim>\<open>toString\<close>) are not represented either: a
  read sees own properties, the \<^verbatim>\<open>length\<close> and the elements of arrays and strings.
\<close>

type_synonym addr = nat

datatype jsval =
    Undefined
  | Null
  | JBool bool
  | JNum int
  | JStr string
  | JArr "jsval list"
  | JRef addr

type_synonym obj = "string \<rightharpoonup> jsval"

type_synonym heap = "addr \<Rightarrow> obj"

datatype error = TypeError

text \<open>ToBoolean: what \<^verbatim>\<open>if (v)\<close>, \<^verbatim>\<open>v && w\<close> and \<^verbatim>\<open>Boolean(v)\<close> test.\<close>

fun truthy :: "jsval \<Rightarrow> bool" where
  "truthy Undefined = False"
| "truthy Null = False"
| "truthy (JBool b) = b"
| "truthy (JNum n) = (n \<noteq> 0)"
| "truthy (JStr s) = (s \<noteq> [])"
| "truthy (JArr xs) = True"
| "truthy (JRef a) = True"

text \<open>Decimal text of a number, as ToString writes an integer.\<close>

definition digit_char :: "nat \<Rightarrow> char" where
  "digit_char d = ''0123456789'' ! d"

fun string_of_nat :: "nat \<Rightarrow> string" where
  "string_of_nat n =
     (if n < 10 then [digit_char n] else string_of_nat (n div 10) @ [digit_char (n mod 10)])"

declare string_of_nat.simps [simp del]

definition string_of_int :: "int \<Rightarrow> string" where
  "string_of_int i = (if i < 0 then CHR ''-'' # string_of_nat (nat (- i)) else string_of_nat (nat i))"

fun join_comma :: "string list \<Rightarrow> string" where
  "join_comma [] = []"
| "join_comma [s] = s"
| "join_comma (s # t # ts) = s @ '','' @ join_comma (t # ts)"

text \<open>
  ToString, which a template literal applies to each \<^verbatim>\<open>${...}\<close>. An array is the
  texts of its elements joined by commas, with nothing written for \<^verbatim>\<open>undefined\<close>
  and \<^verbatim>\<open>null\<close> elements; a plain object is \<^verbatim>\<open>[object Object]\<close>.
\<close>

fun to_string :: "jsval \<Rightarrow> string" where
  "to_string Undefined = ''undefined''"
| "to_string Null = ''null''"
| "to_string (JBool b) = (if b then ''true'' else ''false'')"
| "to_string (JNum n) = string_of_int n"
| "to_string (JStr s) = s"
| "to_string (JArr xs) =
     join_comma (map (\<lambda>x. if x = Undefined \<or> x = Null then [] else to_string x) xs)"
| "to_string (JRef a) = ''[object Object]''"

text \<open>A property name that is an array index: \<^verbatim>\<open>0\<close>, or digits with no leading zero.\<close>

definition digit_of :: "char \<Rightarrow> nat option" where
  "digit_of c = map_of (zip ''0123456789'' [0, 1, 2, 3, 4, 5, 6, 7, 8, 9]) c"

fun nat_of_digits :: "nat \<Rightarrow> string \<Rightarrow> nat option" where
  "nat_of_digits acc [] = Some acc"
| "nat_of_digits acc (c # cs) =
     (case digit_of c of None \<Rightarrow> None | Some d \<Rightarrow> nat_of_digits (10 * acc + d) cs)"

definition index_of_key :: "string \<Rightarrow> nat option" where
  "index_of_key k =
     (if k = [] \<or> (hd k = CHR ''0'' \<and> tl k \<noteq> []) then None else nat_of_digits 0 k)"

text \<open>
  \<^verbatim>\<open>v[k]\<close> on a value that is neither \<^verbatim>\<open>undefined\<close> nor \<^verbatim>\<open>null\<close>: an own
  property, or \<^verbatim>\<open>undefined\<close> when there is none.
\<close>

fun read :: "heap \<Rightarrow> jsval \<Rightarrow> string \<Rightarrow> jsval" where
  "read h (JRef a) k = (case h a k of None \<Rightarrow> Undefined | Some v \<Rightarrow> v)"
| "read h (JArr xs) k =
     (if k = ''length'' then JNum (int (length xs))
      else case index_of_key k of
             None \<Rightarrow> Undefined
           | Some i \<Rightarrow> if i < length xs then xs ! i else Undefined)"
| "read h (JStr s) k =
     (if k = ''length'' then JNum (int (length s))
      else case index_of_key k of
             None \<Rightarrow> Undefined
           | Some i \<Rightarrow> if i < length s then JStr [s ! i] else Undefined)"
| "read h v k = Undefined"

text \<open>\<^verbatim>\<open>undefined\<close> or \<^verbatim>\<open>null\<close>: the values of a missing field.\<close>

definition nullish :: "jsval \<Rightarrow> bool" where
  "nullish v = (v = Undefined \<or> v = Null)"

text \<open>\<^verbatim>\<open>v[k]\<close> in general: reading a property of \<^verbatim>\<open>undefined\<close> or \<^verbatim>\<open>null\<close> throws.\<close>

definition get_prop :: "heap \<Rightarrow> jsval \<Rightarrow> string \<Rightarrow> error + jsval" where
  "get_prop h v k = (if nullish v then Inl TypeError else Inr (read h v k))"

text \<open>Sequencing of steps that may throw.\<close>

definition bindE :: "error + 'a \<Rightarrow> ('a \<Rightarrow> error + 'b) \<Rightarrow> error + 'b" where
  "bindE m f = (case m of Inl e \<Rightarrow> Inl e | Inr x \<Rightarrow> f x)"

text \<open>
  A method of \<^verbatim>\<open>Array.prototype\<close> called on a value: the elements when the value is
  an array, a TypeError otherwise (the method is missing, or the value is
  \<^verbatim>\<open>undefined\<close>).
\<close>

definition as_array :: "jsval \<Rightarrow> error + jsval list" where
  "as_array v = (case v of JArr xs \<Rightarrow> Inr xs | _ \<Rightarrow> Inl TypeError)"

text \<open>\<^verbatim>\<open>filter\<close> and \<^verbatim>\<open>map\<close> with a callback that may throw: the first throw ends the pass.\<close>

fun filterE :: "('a \<Rightarrow> error + bool) \<Rightarrow> 'a list \<Rightarrow> error + 'a list" where
  "filterE p [] = Inr []"
| "filterE p (x # xs) =
     (case p x of
        Inl e \<Rightarrow> Inl e
      | Inr b \<Rightarrow> (case filterE p xs of
                    Inl e \<Rightarrow> Inl e
                  | Inr ys \<Rightarrow> Inr (if b then x # ys else ys)))"

fun mapE :: "('a \<Rightarrow> error + 'b) \<Rightarrow> 'a list \<Rightarrow> error + 'b list" where
  "mapE f [] = Inr []"
| "mapE f (x # xs) =
     (case f x of
        Inl e \<Rightarrow> Inl e
      | Inr y \<Rightarrow> (case mapE f xs of Inl e \<Rightarrow> Inl e | Inr ys \<Rightarrow> Inr (y # ys)))"

section \<open>Node type predicates\<close>

text \<open>
  Modelled from the spec: the predicates \<^verbatim>\<open>isCallExpression\<close>, \<^verbatim>\<open>isIdentifier\<close>, ...
  that \<^verbatim>\<open>utils.js\<close> imports from \<^verbatim>\<open>../utils/types\<close>, a module that is not among the
  sources. The spec gives every node a \<^verbatim>\<open>type\<close> tag, the discriminator of its variant,
  and has the helpers dispatch on it without throwing; so a predicate holds of a value
  exactly when the value is an object whose \<^verbatim>\<open>type\<close> is the variant's name.
\<close>

definition is_type :: "string \<Rightarrow> heap \<Rightarrow> jsval \<Rightarrow> bool" where
  "is_type t h v = (case v of JRef a \<Rightarrow> h a ''type'' = Some (JStr t) | _ \<Rightarrow> False)"

abbreviation "isAssignmentExpression \<equiv> is_type ''AssignmentExpression''"
abbreviation "isCallExpression \<equiv> is_type ''CallExpression''"
abbreviation "isIdentifier \<equiv> is_type ''Identifier''"
abbreviation "isLiteral \<equiv> is_type ''Literal''"
abbreviation "isMemberExpression \<equiv> is_type ''MemberExpression''"
abbreviation "isNewExpression \<equiv> is_type ''NewExpression''"
abbreviation "isObjectPattern \<equiv> is_type ''ObjectPattern''"
abbreviation "isOptionalCallExpression \<equiv> is_type ''OptionalCallExpression''"
abbreviation "isOptionalMemberExpression \<equiv> is_type ''OptionalMemberExpression''"

section \<open>parseCallee\<close>

text \<open>
  \<^verbatim>\<open>
  while (isMemberExpression(callee)) {
    if (isIdentifier(callee.property)) {
      parsedCallee.push(callee.property.name);
    }
    callee = callee.object;
  }
  \<close>
  The loop follows \<^verbatim>\<open>object\<close> links for as long as it meets member expressions; on a
  store where these links run in a circle it does not end, which is the value \<open>None\<close>.
  Inside the loop \<^verbatim>\<open>callee\<close> is an object, so its reads cannot throw.
\<close>

partial_function (option) parseCallee_while ::
  "heap \<Rightarrow> jsval \<Rightarrow> jsval list \<Rightarrow> (jsval \<times> jsval list) option" where
  "parseCallee_while h callee parsedCallee =
     (if isMemberExpression h callee then
        parseCallee_while h (read h callee ''object'')
          (if isIdentifier h (read h callee ''property'')
           then parsedCallee @ [read h (read h callee ''property'') ''name'']
           else parsedCallee)
      else Some (callee, parsedCallee))"

declare parseCallee_while.simps [code]

definition parseCallee :: "heap \<Rightarrow> jsval \<Rightarrow> jsval list option" where
  "parseCallee h node =
     (if isCallExpression h node \<or> isNewExpression h node then
        (case parseCallee_while h (read h node ''callee'') [] of
           None \<Rightarrow> None
         | Some (callee, parsedCallee) \<Rightarrow>
             Some (rev (if isIdentifier h callee
                        then parsedCallee @ [read h callee ''name'']
                        else parsedCallee)))
      else Some (rev []))"

section \<open>findNodes and parseArgs\<close>

text \<open>
  \<^verbatim>\<open>
  if (body) { nodesArray = body.filter((node) => node.type === nodeName); }
  \<close>
  \<^verbatim>\<open>nodeName\<close> is a string, as the source documents it.
\<close>

definition findNodes :: "heap \<Rightarrow> jsval \<Rightarrow> string \<Rightarrow> error + jsval list" where
  "findNodes h body nodeName =
     (if truthy body then
        bindE (as_array body)
          (filterE (\<lambda>node. bindE (get_prop h node ''type'') (\<lambda>t. Inr (t = JStr nodeName))))
      else Inr [])"

text \<open>
  \<^verbatim>\<open>
  if (isCallExpression(node)) {
    parsedArgs = node.arguments
      .filter((argument) => isLiteral(argument) && argument.value)
      .map((argument) => argument.value);
  }
  \<close>
\<close>

definition parseArgs :: "heap \<Rightarrow> jsval \<Rightarrow> error + jsval list" where
  "parseArgs h node =
     (if isCallExpression h node then
        bindE (as_array (read h node ''arguments'')) (\<lambda>arguments.
        bindE (filterE (\<lambda>argument.
                 if isLiteral h argument
                 then bindE (get_prop h argument ''value'') (\<lambda>v. Inr (truthy v))
                 else Inr False) arguments) (\<lambda>literals.
        mapE (\<lambda>argument. get_prop h argument ''value'') literals))
      else Inr [])"

section \<open>findUnorderedProperty\<close>

text \<open>
  The function receives records that carry a numeric \<^verbatim>\<open>order\<close> beside their other
  fields. \<^verbatim>\<open>null\<close>, the result when no pair is out of order, is \<open>None\<close>.
  \<^verbatim>\<open>
  for (let i = 0; i < arr.length - 1; i++) {
    if (arr[i].order > arr[i + 1].order) { return arr[i]; }
  }
  return null;
  \<close>
\<close>

record ordered_property =
  order :: int

function findUnorderedProperty_for ::
  "'a ordered_property_scheme list \<Rightarrow> nat \<Rightarrow> 'a ordered_property_scheme option" where
  "findUnorderedProperty_for arr i =
     (if int i < int (length arr) - 1 then
        (if order (arr ! i) > order (arr ! (i + 1)) then Some (arr ! i)
         else findUnorderedProperty_for arr (i + 1))
      else None)"
  by pat_completeness auto
termination
  by (relation "measure (\<lambda>(arr, i). length arr - i)") auto

declare findUnorderedProperty_for.simps [simp del]

definition findUnorderedProperty ::
  "'a ordered_property_scheme list \<Rightarrow> 'a ordered_property_scheme option" where
  "findUnorderedProperty arr = findUnorderedProperty_for arr 0"

section \<open>getPropertyValue\<close>

text \<open>\<^verbatim>\<open>path.split('.')\<close>: the pieces between the dots, one piece when there is no dot.\<close>

fun split_dot :: "string \<Rightarrow> string list" where
  "split_dot [] = [[]]"
| "split_dot (c # cs) =
     (if c = CHR ''.'' then [] # split_dot cs
      else (case split_dot cs of [] \<Rightarrow> [[c]] | p # ps \<Rightarrow> (c # p) # ps))"

text \<open>
  The path is a dotted string or an array of names. The array is the one argument that
  the source writes to: \<^verbatim>\<open>parts.shift()\<close> removes its first element, and when
  \<^verbatim>\<open>path\<close> is an array \<^verbatim>\<open>parts\<close> is that very array. The function therefore
  returns, beside its result, what the caller's \<^verbatim>\<open>path\<close> holds after the call.
\<close>

datatype path = PathString string | PathArray "string list"

text \<open>\<^verbatim>\<open>node[path]\<close> uses the path as a property name: an array is its elements joined by commas.\<close>

fun path_key :: "path \<Rightarrow> string" where
  "path_key (PathString s) = s"
| "path_key (PathArray ps) = join_comma ps"

fun path_parts :: "path \<Rightarrow> string list" where
  "path_parts (PathString s) = split_dot s"
| "path_parts (PathArray ps) = ps"

text \<open>\<^verbatim>\<open>parts[0]\<close> as a property name; on an empty array it is \<^verbatim>\<open>undefined\<close>.\<close>

fun first_key :: "string list \<Rightarrow> string" where
  "first_key [] = ''undefined''"
| "first_key (p # ps) = p"

text \<open>
  \<^verbatim>\<open>
  const parts = typeof path === 'string' ? path.split('.') : path;
  if (parts.length === 1) { return node[path]; }
  const property = node[parts[0]];
  if (property && parts.length > 1) {
    parts.shift();
    return getPropertyValue(property, parts);
  }
  return property;
  \<close>
\<close>

function getPropertyValue :: "heap \<Rightarrow> jsval \<Rightarrow> path \<Rightarrow> (error + jsval) \<times> path" where
  "getPropertyValue h node path =
     (let parts = path_parts path in
      if length parts = 1 then (get_prop h node (path_key path), path)
      else (case get_prop h node (first_key parts) of
              Inl e \<Rightarrow> (Inl e, path)
            | Inr property \<Rightarrow>
                if truthy property \<and> length parts > 1 then
                  (case getPropertyValue h property (PathArray (tl parts)) of
                     (result, parts') \<Rightarrow>
                       (result, case path of PathString s \<Rightarrow> PathString s | PathArray ps \<Rightarrow> parts'))
                else (Inr property, path)))"
  by pat_completeness auto
termination
  by (relation "measure (\<lambda>(h, node, path). length (path_parts path))") auto

declare getPropertyValue.simps [simp del]

section \<open>collectObjectPatternBindings\<close>

text \<open>
  The binding map (\<^verbatim>\<open>initialObjToBinding\<close>, such as \<^verbatim>\<open>{ Ember: ['$'] }\<close>) has variable
  names as keys and arrays of property names as values. \<^verbatim>\<open>Object.keys\<close> gives its
  keys, \<^verbatim>\<open>indexOf\<close> finds \<^verbatim>\<open>node.init.name\<close> among them only when that name is a
  string equal to a key, and \<^verbatim>\<open>identifiers[bindingIndex]\<close> is then that key.
  \<^verbatim>\<open>
  if (!isObjectPattern(node.id)) { return []; }
  const identifiers = Object.keys(initialObjToBinding);
  const objBindingName = node.init.name;
  const bindingIndex = identifiers.indexOf(objBindingName);
  if (bindingIndex === -1) { return []; }
  const binding = identifiers[bindingIndex];
  return node.id.properties
    .filter((props) => initialObjToBinding[binding].includes(props.key.name))
    .map((props) => props.value.name);
  \<close>
\<close>

definition collectObjectPatternBindings ::
  "heap \<Rightarrow> jsval \<Rightarrow> (string \<rightharpoonup> string list) \<Rightarrow> error + jsval list" where
  "collectObjectPatternBindings h node initialObjToBinding =
     bindE (get_prop h node ''id'') (\<lambda>nodeId.
     if \<not> isObjectPattern h nodeId then Inr []
     else
       bindE (get_prop h node ''init'') (\<lambda>init.
       bindE (get_prop h init ''name'') (\<lambda>objBindingName.
       case objBindingName of
         JStr binding \<Rightarrow>
           (case initialObjToBinding binding of
              None \<Rightarrow> Inr []
            | Some names \<Rightarrow>
                bindE (as_array (read h nodeId ''properties'')) (\<lambda>properties.
                bindE (filterE (\<lambda>props.
                         bindE (get_prop h props ''key'') (\<lambda>key.
                         bindE (get_prop h key ''name'') (\<lambda>keyName.
                         Inr (keyName \<in> set (map JStr names))))) properties) (\<lambda>bound.
                mapE (\<lambda>props.
                        bindE (get_prop h props ''value'') (\<lambda>v. get_prop h v ''name'')) bound)))
       | _ \<Rightarrow> Inr [])))"

section \<open>isEmptyMethod\<close>

text \<open>
  ToNumber, for the comparison \<^verbatim>\<open>length <= 0\<close>; \<open>None\<close> is \<^verbatim>\<open>NaN\<close>, with which
  every comparison is false. A string, and an array or object through its text, is read
  as an optionally signed run of decimal digits, the empty text being 0; other
  numeric texts (white space, fractions, exponents) denote nothing in this model.
\<close>

definition number_of_text :: "string \<Rightarrow> int option" where
  "number_of_text s =
     (case s of
        [] \<Rightarrow> Some 0
      | c # cs \<Rightarrow>
          if c = CHR ''-'' \<and> cs \<noteq> [] then map_option (\<lambda>n. - int n) (nat_of_digits 0 cs)
          else if c = CHR ''+'' \<and> cs \<noteq> [] then map_option int (nat_of_digits 0 cs)
          else map_option int (nat_of_digits 0 s))"

fun to_number :: "jsval \<Rightarrow> int option" where
  "to_number Undefined = None"
| "to_number Null = Some 0"
| "to_number (JBool b) = Some (if b then 1 else 0)"
| "to_number (JNum n) = Some n"
| "to_number v = number_of_text (to_string v)"

definition le_zero :: "jsval \<Rightarrow> bool" where
  "le_zero v = (case to_number v of None \<Rightarrow> False | Some n \<Rightarrow> n \<le> 0)"

text \<open>
  \<^verbatim>\<open>
  return node.value.body && node.value.body.body && node.value.body.body.length <= 0;
  \<close>
  \<^verbatim>\<open>a && b\<close> is \<^verbatim>\<open>a\<close> itself when \<^verbatim>\<open>a\<close> is falsy.
\<close>

definition isEmptyMethod :: "heap \<Rightarrow> jsval \<Rightarrow> error + jsval" where
  "isEmptyMethod h node =
     bindE (get_prop h node ''value'') (\<lambda>v.
     bindE (get_prop h v ''body'') (\<lambda>body.
     if \<not> truthy body then Inr body
     else
       bindE (get_prop h body ''body'') (\<lambda>statements.
       if \<not> truthy statements then Inr statements
       else bindE (get_prop h statements ''length'') (\<lambda>n. Inr (JBool (le_zero n))))))"

section \<open>getSize\<close>

text \<open>
  \<^verbatim>\<open>
  return node.loc.end.line - node.loc.start.line + 1;
  \<close>
  The operands of \<^verbatim>\<open>-\<close> are converted to numbers; the result is a number, or
  \<^verbatim>\<open>NaN\<close> (\<open>None\<close>) when an operand is not one.
\<close>

definition getSize :: "heap \<Rightarrow> jsval \<Rightarrow> error + int option" where
  "getSize h node =
     bindE (get_prop h node ''loc'') (\<lambda>loc.
     bindE (get_prop h loc ''end'') (\<lambda>end.
     bindE (get_prop h end ''line'') (\<lambda>endLine.
     bindE (get_prop h node ''loc'') (\<lambda>loc.
     bindE (get_prop h loc ''start'') (\<lambda>start.
     bindE (get_prop h start ''line'') (\<lambda>startLine.
     Inr (case (to_number endLine, to_number startLine) of
            (Some e, Some s) \<Rightarrow> Some (e - s + 1)
          | _ \<Rightarrow> None)))))))"

section \<open>getAncestor and isInLeftSideOfAssignmentExpression\<close>

text \<open>
  \<^verbatim>\<open>
  let currentNode = node;
  while (currentNode) {
    if (predicate(currentNode)) { return currentNode; }
    currentNode = currentNode.parent;
  }
  return null;
  \<close>
  The walk does not end when the \<^verbatim>\<open>parent\<close> links run in a circle through nodes
  that the predicate rejects: \<open>None\<close>. The predicate is a function of the node that
  returns a value, tested for truthiness.
\<close>

partial_function (option) getAncestor ::
  "heap \<Rightarrow> jsval \<Rightarrow> (jsval \<Rightarrow> jsval) \<Rightarrow> jsval option" where
  "getAncestor h currentNode predicate =
     (if truthy currentNode then
        (if truthy (predicate currentNode) then Some currentNode
         else getAncestor h (read h currentNode ''parent'') predicate)
      else Some Null)"

declare getAncestor.simps [code]

text \<open>
  \<^verbatim>\<open>
  (ancestor) =>
    ancestor.parent &&
    isAssignmentExpression(ancestor.parent) &&
    ancestor === ancestor.parent.left
  \<close>
  The comparison is reached only by an \<^verbatim>\<open>ancestor\<close> that has a \<^verbatim>\<open>parent\<close>
  property of its own, an object, for which \<^verbatim>\<open>===\<close> is identity.
\<close>

definition leftSidePredicate :: "heap \<Rightarrow> jsval \<Rightarrow> jsval" where
  "leftSidePredicate h ancestor =
     (let parent = read h ancestor ''parent'' in
      if \<not> truthy parent then parent
      else if \<not> isAssignmentExpression h parent then JBool False
      else JBool (ancestor = read h parent ''left''))"

definition isInLeftSideOfAssignmentExpression :: "heap \<Rightarrow> jsval \<Rightarrow> bool option" where
  "isInLeftSideOfAssignmentExpression h node =
     map_option truthy (getAncestor h node (leftSidePredicate h))"

section \<open>getName\<close>

text \<open>
  \<^verbatim>\<open>
  if (isIdentifier(node)) {
    return node.name;
  } else if (isCallExpression(node) || isOptionalCallExpression(node)) {
    return getName(node.callee);
  } else if (isMemberExpression(node) || isOptionalMemberExpression(node)) {
    return `${getName(node.object)}.${getName(node.property)}`;
  }
  return undefined;
  \<close>
  The recursion does not end on a store whose \<^verbatim>\<open>callee\<close>, \<^verbatim>\<open>object\<close> and
  \<^verbatim>\<open>property\<close> links run in a circle: \<open>None\<close>.
\<close>

partial_function (option) getName :: "heap \<Rightarrow> jsval \<Rightarrow> jsval option" where
  "getName h node =
     (if isIdentifier h node then Some (read h node ''name'')
      else if isCallExpression h node \<or> isOptionalCallExpression h node then
        getName h (read h node ''callee'')
      else if isMemberExpression h node \<or> isOptionalMemberExpression h node then
        Option.bind (getName h (read h node ''object'')) (\<lambda>objectName.
        Option.bind (getName h (read h node ''property'')) (\<lambda>propertyName.
        Some (JStr (to_string objectName @ ''.'' @ to_string propertyName))))
      else Some Undefined)"

declare getName.simps [code]

section \<open>Example trees\<close>

text \<open>A store written as a table: each address with the properties of its object.\<close>

definition heap_of :: "(addr \<times> (string \<times> jsval) list) list \<Rightarrow> heap" where
  "heap_of cells a = (case map_of cells a of None \<Rightarrow> Map.empty | Some entries \<Rightarrow> map_of entries)"

text \<open>\<^verbatim>\<open>Ember.computed.alias()\<close>: the call is node 0, its callee node 1.\<close>

definition ember_heap :: heap where
  "ember_heap = heap_of
     [(0, [(''type'', JStr ''CallExpression''), (''callee'', JRef 1), (''arguments'', JArr [])]),
      (1, [(''type'', JStr ''MemberExpression''), (''object'', JRef 2), (''property'', JRef 3),
           (''computed'', JBool False)]),
      (2, [(''type'', JStr ''MemberExpression''), (''object'', JRef 4), (''property'', JRef 5),
           (''computed'', JBool False)]),
      (3, [(''type'', JStr ''Identifier''), (''name'', JStr ''alias'')]),
      (4, [(''type'', JStr ''Identifier''), (''name'', JStr ''Ember'')]),
      (5, [(''type'', JStr ''Identifier''), (''name'', JStr ''computed'')])]"

text \<open>\<^verbatim>\<open>a[dynamic]()\<close>: a computed access whose key expression is the identifier \<^verbatim>\<open>dynamic\<close>.\<close>

definition dynamic_heap :: heap where
  "dynamic_heap = heap_of
     [(0, [(''type'', JStr ''CallExpression''), (''callee'', JRef 1), (''arguments'', JArr [])]),
      (1, [(''type'', JStr ''MemberExpression''), (''object'', JRef 2), (''property'', JRef 3),
           (''computed'', JBool True)]),
      (2, [(''type'', JStr ''Identifier''), (''name'', JStr ''a'')]),
      (3, [(''type'', JStr ''Identifier''), (''name'', JStr ''dynamic'')])]"

text \<open>\<^verbatim>\<open>new a['x']()\<close>: a computed access whose key expression is a string literal.\<close>

definition literal_key_heap :: heap where
  "literal_key_heap = heap_of
     [(0, [(''type'', JStr ''NewExpression''), (''callee'', JRef 1), (''arguments'', JArr [])]),
      (1, [(''type'', JStr ''MemberExpression''), (''object'', JRef 2), (''property'', JRef 3),
           (''computed'', JBool True)]),
      (2, [(''type'', JStr ''Identifier''), (''name'', JStr ''a'')]),
      (3, [(''type'', JStr ''Literal''), (''value'', JStr ''x'')])]"

text \<open>
  A callee that is a chain of member expressions over an identifier, with the names the
  chain spells from its root to its leaf: the root's name, then the name of each
  property that is an identifier.
\<close>

inductive callee_chain :: "heap \<Rightarrow> jsval \<Rightarrow> jsval list \<Rightarrow> bool" for h where
  root: "isIdentifier h c \<Longrightarrow> callee_chain h c [read h c ''name'']"
| member: "isMemberExpression h c \<Longrightarrow> isIdentifier h (read h c ''property'') \<Longrightarrow>
     callee_chain h (read h c ''object'') names \<Longrightarrow>
     callee_chain h c (names @ [read h (read h c ''property'') ''name''])"
| skip: "isMemberExpression h c \<Longrightarrow> \<not> isIdentifier h (read h c ''property'') \<Longrightarrow>
     callee_chain h (read h c ''object'') names \<Longrightarrow> callee_chain h c names"

text \<open>\<^verbatim>\<open>f('x', 0, 'y', null)\<close>: the call is node 0, its arguments nodes 2 to 5.\<close>

definition args_heap :: heap where
  "args_heap = heap_of
     [(0, [(''type'', JStr ''CallExpression''), (''callee'', JRef 1),
           (''arguments'', JArr [JRef 2, JRef 3, JRef 4, JRef 5])]),
      (1, [(''type'', JStr ''Identifier''), (''name'', JStr ''f'')]),
      (2, [(''type'', JStr ''Literal''), (''value'', JStr ''x'')]),
      (3, [(''type'', JStr ''Literal''), (''value'', JNum 0)]),
      (4, [(''type'', JStr ''Literal''), (''value'', JStr ''y'')]),
      (5, [(''type'', JStr ''Literal''), (''value'', Null)])]"

text \<open>
  \<^verbatim>\<open>[{order: 1}, {order: 3}, {order: 2}]\<close> and a sequence in order, each record with a
  label beside its \<^verbatim>\<open>order\<close>.
\<close>

definition unordered_properties :: "string ordered_property_scheme list" where
  "unordered_properties =
     [\<lparr>order = 1, \<dots> = ''first''\<rparr>, \<lparr>order = 3, \<dots> = ''second''\<rparr>,
      \<lparr>order = 2, \<dots> = ''third''\<rparr>]"

definition ordered_properties :: "string ordered_property_scheme list" where
  "ordered_properties =
     [\<lparr>order = 1, \<dots> = ''first''\<rparr>, \<lparr>order = 2, \<dots> = ''second''\<rparr>,
      \<lparr>order = 2, \<dots> = ''third''\<rparr>]"

text \<open>
  \<^verbatim>\<open>this.x.y = 1\<close> as a statement of a program: the assignment is node 0, its left side
  node 1 (\<^verbatim>\<open>this.x.y\<close>), with \<^verbatim>\<open>this.x\<close> node 2, \<^verbatim>\<open>this\<close> node 3, \<^verbatim>\<open>x\<close> node 4 and
  \<^verbatim>\<open>y\<close> node 5; the right side \<^verbatim>\<open>1\<close> is node 6.
\<close>

definition assignment_heap :: heap where
  "assignment_heap = heap_of
     [(0, [(''type'', JStr ''AssignmentExpression''), (''operator'', JStr ''=''),
           (''left'', JRef 1), (''right'', JRef 6), (''parent'', JRef 7)]),
      (1, [(''type'', JStr ''MemberExpression''), (''object'', JRef 2), (''property'', JRef 5),
           (''computed'', JBool False), (''parent'', JRef 0)]),
      (2, [(''type'', JStr ''MemberExpression''), (''object'', JRef 3), (''property'', JRef 4),
           (''computed'', JBool False), (''parent'', JRef 1)]),
      (3, [(''type'', JStr ''ThisExpression''), (''parent'', JRef 2)]),
      (4, [(''type'', JStr ''Identifier''), (''name'', JStr ''x''), (''parent'', JRef 2)]),
      (5, [(''type'', JStr ''Identifier''), (''name'', JStr ''y''), (''parent'', JRef 1)]),
      (6, [(''type'', JStr ''Literal''), (''value'', JNum 1), (''parent'', JRef 0)]),
      (7, [(''type'', JStr ''ExpressionStatement''), (''expression'', JRef 0), (''parent'', JRef 8)]),
      (8, [(''type'', JStr ''Program''), (''body'', JArr [JRef 7]), (''parent'', Null)])]"

text \<open>
  The nodes that the upward walk from \<open>n\<close> visits: \<open>n\<close> itself, then each
  \<^verbatim>\<open>parent\<close> in turn, for as long as the node at hand is truthy.
\<close>

inductive on_parent_walk :: "heap \<Rightarrow> jsval \<Rightarrow> jsval \<Rightarrow> bool" for h where
  here: "truthy n \<Longrightarrow> on_parent_walk h n n"
| up: "truthy n \<Longrightarrow> on_parent_walk h (read h n ''parent'') a \<Longrightarrow> on_parent_walk h n a"

text \<open>The \<^verbatim>\<open>parent\<close> links above \<open>n\<close> reach a falsy value, such as the \<^verbatim>\<open>null\<close> parent of the root.\<close>

inductive parent_walk_ends :: "heap \<Rightarrow> jsval \<Rightarrow> bool" for h where
  stop: "\<not> truthy n \<Longrightarrow> parent_walk_ends h n"
| step: "truthy n \<Longrightarrow> parent_walk_ends h (read h n ''parent'') \<Longrightarrow> parent_walk_ends h n"

text \<open>\<open>a\<close> is the left side of an assignment: \<^verbatim>\<open>a.parent\<close> is an assignment expression and \<^verbatim>\<open>a === a.parent.left\<close>.\<close>

definition is_assignment_left :: "heap \<Rightarrow> jsval \<Rightarrow> bool" where
  "is_assignment_left h a =
     (isAssignmentExpression h (read h a ''parent'') \<and> a = read h (read h a ''parent'') ''left'')"

text \<open>
  \<^verbatim>\<open>this.x.y()\<close>: the call is node 0, its callee \<^verbatim>\<open>this.x.y\<close> node 1, \<^verbatim>\<open>this.x\<close>
  node 2 and \<^verbatim>\<open>this\<close>, a \<^verbatim>\<open>ThisExpression\<close>, node 3.
\<close>

definition this_call_heap :: heap where
  "this_call_heap = heap_of
     [(0, [(''type'', JStr ''CallExpression''), (''callee'', JRef 1), (''arguments'', JArr [])]),
      (1, [(''type'', JStr ''MemberExpression''), (''object'', JRef 2), (''property'', JRef 5),
           (''computed'', JBool False)]),
      (2, [(''type'', JStr ''MemberExpression''), (''object'', JRef 3), (''property'', JRef 4),
           (''computed'', JBool False)]),
      (3, [(''type'', JStr ''ThisExpression'')]),
      (4, [(''type'', JStr ''Identifier''), (''name'', JStr ''x'')]),
      (5, [(''type'', JStr ''Identifier''), (''name'', JStr ''y'')])]"

text \<open>
  Repeated property lookup along a path, as the specification words it: each name is
  looked up in the value reached so far, and a name that is absent gives
  \<^verbatim>\<open>undefined\<close>, as does every name after it.
\<close>

fun lookup_path :: "heap \<Rightarrow> jsval \<Rightarrow> string list \<Rightarrow> jsval" where
  "lookup_path h v [] = v"
| "lookup_path h v (k # ks) = lookup_path h (read h v k) ks"

text \<open>A destructured property that has its \<^verbatim>\<open>key\<close> and its \<^verbatim>\<open>value\<close> node.\<close>

definition has_key_and_value :: "heap \<Rightarrow> jsval \<Rightarrow> bool" where
  "has_key_and_value h props =
     (\<not> nullish props \<and> \<not> nullish (read h props ''key'') \<and> \<not> nullish (read h props ''value''))"

text \<open>
  \<^verbatim>\<open>const { $: foo } = Ember\<close> is the declarator at node 0, with the pattern at node 1
  and its one property at node 3; \<^verbatim>\<open>const E = Ember\<close> is the declarator at node 6.
\<close>

definition destructuring_heap :: heap where
  "destructuring_heap = heap_of
     [(0, [(''type'', JStr ''VariableDeclarator''), (''id'', JRef 1), (''init'', JRef 2)]),
      (1, [(''type'', JStr ''ObjectPattern''), (''properties'', JArr [JRef 3])]),
      (2, [(''type'', JStr ''Identifier''), (''name'', JStr ''Ember'')]),
      (3, [(''type'', JStr ''Property''), (''key'', JRef 4), (''value'', JRef 5),
           (''computed'', JBool False), (''shorthand'', JBool False)]),
      (4, [(''type'', JStr ''Identifier''), (''name'', JStr ''$'')]),
      (5, [(''type'', JStr ''Identifier''), (''name'', JStr ''foo'')]),
      (6, [(''type'', JStr ''VariableDeclarator''), (''id'', JRef 7), (''init'', JRef 2)]),
      (7, [(''type'', JStr ''Identifier''), (''name'', JStr ''E'')])]"

text \<open>
  The declarator of \<^verbatim>\<open>for (const { $ } of list)\<close>: an object pattern as \<^verbatim>\<open>id\<close> and
  \<^verbatim>\<open>null\<close> as \<^verbatim>\<open>init\<close>.
\<close>

definition for_of_heap :: heap where
  "for_of_heap = heap_of
     [(0, [(''type'', JStr ''VariableDeclarator''), (''id'', JRef 1), (''init'', Null)]),
      (1, [(''type'', JStr ''ObjectPattern''), (''properties'', JArr [JRef 3])]),
      (3, [(''type'', JStr ''Property''), (''key'', JRef 4), (''value'', JRef 4),
           (''computed'', JBool False), (''shorthand'', JBool True)]),
      (4, [(''type'', JStr ''Identifier''), (''name'', JStr ''$'')])]"

text \<open>
  \<^verbatim>\<open>const { $, ...rest } = Ember\<close>: the pattern at node 1 has the property
  \<^verbatim>\<open>$\<close> (node 3, with key node 4 and value node 5) and the rest element
  \<^verbatim>\<open>...rest\<close> (node 6), which has an \<^verbatim>\<open>argument\<close> and neither \<^verbatim>\<open>key\<close> nor
  \<^verbatim>\<open>value\<close>.
\<close>

definition rest_heap :: heap where
  "rest_heap = heap_of
     [(0, [(''type'', JStr ''VariableDeclarator''), (''id'', JRef 1), (''init'', JRef 2)]),
      (1, [(''type'', JStr ''ObjectPattern''), (''properties'', JArr [JRef 3, JRef 6])]),
      (2, [(''type'', JStr ''Identifier''), (''name'', JStr ''Ember'')]),
      (3, [(''type'', JStr ''Property''), (''key'', JRef 4), (''value'', JRef 5),
           (''computed'', JBool False), (''shorthand'', JBool True)]),
      (4, [(''type'', JStr ''Identifier''), (''name'', JStr ''$'')]),
      (5, [(''type'', JStr ''Identifier''), (''name'', JStr ''$'')]),
      (6, [(''type'', JStr ''RestElement''), (''argument'', JRef 7)]),
      (7, [(''type'', JStr ''Identifier''), (''name'', JStr ''rest'')])]"

text \<open>A method (node 0) whose \<^verbatim>\<open>value\<close> (node 2) has no \<^verbatim>\<open>body\<close>.\<close>

definition partial_heap :: heap where
  "partial_heap = heap_of
     [(0, [(''type'', JStr ''MethodDefinition''), (''key'', JRef 1), (''value'', JRef 2)]),
      (1, [(''type'', JStr ''Identifier''), (''name'', JStr ''init'')]),
      (2, [(''type'', JStr ''TSEmptyBodyFunctionExpression''), (''params'', JArr [])])]"

section \<open>The module over a store that is written to\<close>

text \<open>
  Whether a function writes to the tree or to an argument cannot be told from a model
  whose functions only take the store. Here every function of the module is embedded a
  second time as an action: it takes the store and returns, beside its result or its
  error, the store it leaves. The store holds objects and arrays. An array that the
  caller holds (a \<^verbatim>\<open>body\<close>, an \<^verbatim>\<open>arguments\<close> list, a path array) is a cell, reached
  through its address, and the array methods that write in JavaScript (\<^verbatim>\<open>push\<close>,
  \<^verbatim>\<open>reverse\<close>, \<^verbatim>\<open>shift\<close>) write that cell. An array that a call creates (\<^verbatim>\<open>[]\<close>,
  the result of \<^verbatim>\<open>split\<close>, \<^verbatim>\<open>filter\<close> or \<^verbatim>\<open>map\<close>) is known to that call alone; it
  is the value \<open>JArr\<close>, and the same methods return it updated.
\<close>

datatype cell = ObjectCell obj | ArrayCell "jsval list"

type_synonym store = "addr \<Rightarrow> cell"

type_synonym 'a action = "store \<Rightarrow> (error + 'a) \<times> store"

definition returnS :: "'a \<Rightarrow> 'a action" where
  "returnS x s = (Inr x, s)"

definition throwS :: "error \<Rightarrow> 'a action" where
  "throwS e s = (Inl e, s)"

definition bindS :: "'a action \<Rightarrow> ('a \<Rightarrow> 'b action) \<Rightarrow> 'b action" where
  "bindS m f s = (case m s of (Inl e, s') \<Rightarrow> (Inl e, s') | (Inr x, s') \<Rightarrow> f x s')"

text \<open>
  A property read: of an object cell its own properties, of an array cell its
  \<^verbatim>\<open>length\<close> and its elements, of a value that is not an address what \<open>read\<close> gives.
\<close>

fun readS :: "store \<Rightarrow> jsval \<Rightarrow> string \<Rightarrow> jsval" where
  "readS s (JRef a) k =
     (case s a of
        ObjectCell ob \<Rightarrow> (case ob k of None \<Rightarrow> Undefined | Some v \<Rightarrow> v)
      | ArrayCell xs \<Rightarrow> read (\<lambda>a. Map.empty) (JArr xs) k)"
| "readS s v k = read (\<lambda>a. Map.empty) v k"

definition get_propS :: "jsval \<Rightarrow> string \<Rightarrow> jsval action" where
  "get_propS v k s = (if nullish v then Inl TypeError else Inr (readS s v k), s)"

text \<open>
  The elements of an array, for the array methods; on anything else the method does
  not exist and the call throws.
\<close>

definition elementsS :: "jsval \<Rightarrow> jsval list action" where
  "elementsS v s =
     (case v of
        JArr xs \<Rightarrow> Inr xs
      | JRef a \<Rightarrow> (case s a of ArrayCell xs \<Rightarrow> Inr xs | ObjectCell ob \<Rightarrow> Inl TypeError)
      | _ \<Rightarrow> Inl TypeError, s)"

text \<open>The one write of the model: an array takes new elements, in its cell when it has one.\<close>

definition set_elementsS :: "jsval \<Rightarrow> jsval list \<Rightarrow> jsval action" where
  "set_elementsS v ys s =
     (case v of
        JRef a \<Rightarrow> (Inr (JRef a), s(a := ArrayCell ys))
      | _ \<Rightarrow> (Inr (JArr ys), s))"

text \<open>
  \<^verbatim>\<open>push\<close>, \<^verbatim>\<open>reverse\<close> and \<^verbatim>\<open>shift\<close> change the array they are called on; each
  returns here the array after the change (the source uses no other result of them).
\<close>

definition array_push :: "jsval \<Rightarrow> jsval \<Rightarrow> jsval action" where
  "array_push v x = bindS (elementsS v) (\<lambda>xs. set_elementsS v (xs @ [x]))"

definition array_reverse :: "jsval \<Rightarrow> jsval action" where
  "array_reverse v = bindS (elementsS v) (\<lambda>xs. set_elementsS v (rev xs))"

definition array_shift :: "jsval \<Rightarrow> jsval action" where
  "array_shift v = bindS (elementsS v) (\<lambda>xs. set_elementsS v (tl xs))"

text \<open>\<^verbatim>\<open>filter\<close> and \<^verbatim>\<open>map\<close> call back on the elements in order and build a new array.\<close>

fun filterS :: "('a \<Rightarrow> bool action) \<Rightarrow> 'a list \<Rightarrow> 'a list action" where
  "filterS p [] = returnS []"
| "filterS p (x # xs) =
     bindS (p x) (\<lambda>b. bindS (filterS p xs) (\<lambda>ys. returnS (if b then x # ys else ys)))"

fun mapS :: "('a \<Rightarrow> 'b action) \<Rightarrow> 'a list \<Rightarrow> 'b list action" where
  "mapS f [] = returnS []"
| "mapS f (x # xs) = bindS (f x) (\<lambda>y. bindS (mapS f xs) (\<lambda>ys. returnS (y # ys)))"

definition array_filter :: "(jsval \<Rightarrow> bool action) \<Rightarrow> jsval \<Rightarrow> jsval action" where
  "array_filter p v = bindS (elementsS v) (\<lambda>xs. bindS (filterS p xs) (\<lambda>ys. returnS (JArr ys)))"

definition array_map :: "(jsval \<Rightarrow> jsval action) \<Rightarrow> jsval \<Rightarrow> jsval action" where
  "array_map f v = bindS (elementsS v) (\<lambda>xs. bindS (mapS f xs) (\<lambda>ys. returnS (JArr ys)))"


text \<open>A value as a property name or in a template; an array cell is its elements joined.\<close>

definition to_stringS :: "store \<Rightarrow> jsval \<Rightarrow> string" where
  "to_stringS s v =
     (case v of
        JRef a \<Rightarrow> (case s a of ArrayCell xs \<Rightarrow> to_string (JArr xs) | ObjectCell ob \<Rightarrow> to_string v)
      | _ \<Rightarrow> to_string v)"

text \<open>
  \<^verbatim>\<open>v.includes(x)\<close>: on an array the search for an element, on a string the search
  for the text of \<^verbatim>\<open>x\<close>; no other value has the method.
\<close>

definition text_includes :: "string \<Rightarrow> string \<Rightarrow> bool" where
  "text_includes t u = list_ex (\<lambda>i. take (length u) (drop i t) = u) [0..<Suc (length t)]"

definition js_includes :: "jsval \<Rightarrow> jsval \<Rightarrow> bool action" where
  "js_includes v x s =
     (case v of
        JStr t \<Rightarrow> (Inr (text_includes t (to_stringS s x)), s)
      | _ \<Rightarrow> bindS (elementsS v) (\<lambda>xs. returnS (x \<in> set xs)) s)"

text \<open>\<^verbatim>\<open>a > b\<close> on numbers, after ToNumber; with \<^verbatim>\<open>NaN\<close> it is false.\<close>

definition js_gt :: "jsval \<Rightarrow> jsval \<Rightarrow> bool" where
  "js_gt a b = (case (to_number a, to_number b) of (Some x, Some y) \<Rightarrow> x > y | _ \<Rightarrow> False)"

text \<open>
  Modelled from the spec: the predicates of \<^verbatim>\<open>../utils/types\<close>, as \<open>is_type\<close> above,
  over the store with arrays. A predicate holds of a value exactly when the value is an
  object whose \<^verbatim>\<open>type\<close> is the variant's name; it reads the store and leaves it.
\<close>

definition is_typeS :: "string \<Rightarrow> store \<Rightarrow> jsval \<Rightarrow> bool" where
  "is_typeS t s v =
     (case v of
        JRef a \<Rightarrow> (case s a of ObjectCell ob \<Rightarrow> ob ''type'' = Some (JStr t) | ArrayCell xs \<Rightarrow> False)
      | _ \<Rightarrow> False)"

definition isS :: "string \<Rightarrow> jsval \<Rightarrow> bool action" where
  "isS t v s = (Inr (is_typeS t s v), s)"

subsection \<open>findNodes and getSize\<close>

text \<open>
  \<^verbatim>\<open>
  let nodesArray = [];
  if (body) { nodesArray = body.filter((node) => node.type === nodeName); }
  return nodesArray;
  \<close>
\<close>

definition findNodesS :: "jsval \<Rightarrow> string \<Rightarrow> jsval action" where
  "findNodesS body nodeName =
     (if truthy body then
        array_filter (\<lambda>node. bindS (get_propS node ''type'') (\<lambda>t. returnS (t = JStr nodeName))) body
      else returnS (JArr []))"

text \<open>\<^verbatim>\<open>return node.loc.end.line - node.loc.start.line + 1;\<close>\<close>

definition getSizeS :: "jsval \<Rightarrow> int option action" where
  "getSizeS node =
     bindS (get_propS node ''loc'') (\<lambda>loc.
     bindS (get_propS loc ''end'') (\<lambda>end.
     bindS (get_propS end ''line'') (\<lambda>endLine.
     bindS (get_propS node ''loc'') (\<lambda>loc.
     bindS (get_propS loc ''start'') (\<lambda>start.
     bindS (get_propS start ''line'') (\<lambda>startLine.
     returnS (case (to_number endLine, to_number startLine) of
                (Some e, Some s) \<Rightarrow> Some (e - s + 1)
              | _ \<Rightarrow> None)))))))"

subsection \<open>parseCallee and parseArgs\<close>

text \<open>
  \<^verbatim>\<open>
  while (isMemberExpression(callee)) {
    if (isIdentifier(callee.property)) { parsedCallee.push(callee.property.name); }
    callee = callee.object;
  }
  \<close>
\<close>

partial_function (option) parseCallee_whileS ::
  "jsval \<Rightarrow> jsval \<Rightarrow> store \<Rightarrow> ((error + jsval \<times> jsval) \<times> store) option" where
  "parseCallee_whileS callee parsedCallee s =
     (if is_typeS ''MemberExpression'' s callee then
        (if is_typeS ''Identifier'' s (readS s callee ''property'') then
           (case array_push parsedCallee (readS s (readS s callee ''property'') ''name'') s of
              (Inl e, s') \<Rightarrow> Some (Inl e, s')
            | (Inr pushed, s') \<Rightarrow> parseCallee_whileS (readS s' callee ''object'') pushed s')
         else parseCallee_whileS (readS s callee ''object'') parsedCallee s)
      else Some (Inr (callee, parsedCallee), s))"

declare parseCallee_whileS.simps [code]

text \<open>
  \<^verbatim>\<open>
  const parsedCallee = [];
  let callee;
  if (isCallExpression(node) || isNewExpression(node)) {
    callee = node.callee;
    while ...
    if (isIdentifier(callee)) { parsedCallee.push(callee.name); }
  }
  return parsedCallee.reverse();
  \<close>
\<close>

definition parseCalleeS :: "jsval \<Rightarrow> store \<Rightarrow> ((error + jsval) \<times> store) option" where
  "parseCalleeS node s =
     (if is_typeS ''CallExpression'' s node \<or> is_typeS ''NewExpression'' s node then
        (case parseCallee_whileS (readS s node ''callee'') (JArr []) s of
           None \<Rightarrow> None
         | Some (Inl e, s') \<Rightarrow> Some (Inl e, s')
         | Some (Inr (callee, parsedCallee), s') \<Rightarrow>
             Some ((if is_typeS ''Identifier'' s' callee
                    then bindS (array_push parsedCallee (readS s' callee ''name'')) array_reverse
                    else array_reverse parsedCallee) s'))
      else Some (array_reverse (JArr []) s))"

text \<open>
  \<^verbatim>\<open>
  let parsedArgs = [];
  if (isCallExpression(node)) {
    parsedArgs = node.arguments
      .filter((argument) => isLiteral(argument) && argument.value)
      .map((argument) => argument.value);
  }
  return parsedArgs;
  \<close>
\<close>

definition parseArgsS :: "jsval \<Rightarrow> jsval action" where
  "parseArgsS node =
     bindS (isS ''CallExpression'' node) (\<lambda>isCall.
     if isCall then
       bindS (get_propS node ''arguments'') (\<lambda>arguments.
       bindS (array_filter (\<lambda>argument.
                bindS (isS ''Literal'' argument) (\<lambda>isLit.
                if isLit then bindS (get_propS argument ''value'') (\<lambda>v. returnS (truthy v))
                else returnS False)) arguments) (\<lambda>literals.
       array_map (\<lambda>argument. get_propS argument ''value'') literals))
     else returnS (JArr []))"

subsection \<open>findUnorderedProperty\<close>

text \<open>
  \<^verbatim>\<open>
  for (let i = 0; i < arr.length - 1; i++) {
    if (arr[i].order > arr[i + 1].order) { return arr[i]; }
  }
  return null;
  \<close>
  The orders are compared as numbers.
\<close>

definition index_key :: "nat \<Rightarrow> string" where
  "index_key i = to_string (JNum (int i))"

definition below_last :: "nat \<Rightarrow> jsval \<Rightarrow> bool" where
  "below_last i len = (case to_number len of None \<Rightarrow> False | Some n \<Rightarrow> int i < n - 1)"

definition length_number :: "store \<Rightarrow> jsval \<Rightarrow> nat" where
  "length_number s arr = (case to_number (readS s arr ''length'') of None \<Rightarrow> 0 | Some n \<Rightarrow> nat n)"

function findUnorderedProperty_forS :: "jsval \<Rightarrow> nat \<Rightarrow> store \<Rightarrow> (error + jsval) \<times> store" where
  "findUnorderedProperty_forS arr i s =
     (case get_propS arr ''length'' s of
        (Inl e, s1) \<Rightarrow> (Inl e, s1)
      | (Inr len, s1) \<Rightarrow>
          if below_last i len then
            (case bindS (get_propS arr (index_key i)) (\<lambda>x.
                  bindS (get_propS x ''order'') (\<lambda>a.
                  bindS (get_propS arr (index_key (i + 1))) (\<lambda>y.
                  bindS (get_propS y ''order'') (\<lambda>b.
                  returnS (js_gt a b))))) s1 of
               (Inl e, s2) \<Rightarrow> (Inl e, s2)
             | (Inr unordered, s2) \<Rightarrow>
                 if unordered then get_propS arr (index_key i) s2
                 else findUnorderedProperty_forS arr (i + 1) s2)
          else (Inr Null, s1))"
  by pat_completeness auto

termination findUnorderedProperty_forS
  apply (relation "measure (\<lambda>(arr, i, s). length_number s arr - i)")
   apply simp
  apply (auto simp: length_number_def below_last_def get_propS_def bindS_def returnS_def
      split: if_splits prod.splits sum.splits option.splits)
  done

declare findUnorderedProperty_forS.simps [simp del]

definition findUnorderedPropertyS :: "jsval \<Rightarrow> jsval action" where
  "findUnorderedPropertyS arr = findUnorderedProperty_forS arr 0"

subsection \<open>getPropertyValue\<close>

text \<open>
  \<^verbatim>\<open>
  const parts = typeof path === 'string' ? path.split('.') : path;
  if (parts.length === 1) { return node[path]; }
  const property = node[parts[0]];
  if (property && parts.length > 1) {
    parts.shift();
    return getPropertyValue(property, parts);
  }
  return property;
  \<close>
  A string is split into a new array; any other path is used as it is, so that
  \<^verbatim>\<open>parts.shift()\<close> is a call on the caller's own array.
\<close>

function getPropertyValueS :: "jsval \<Rightarrow> jsval \<Rightarrow> store \<Rightarrow> (error + jsval) \<times> store" where
  "getPropertyValueS node path s =
     (let parts = (case path of JStr t \<Rightarrow> JArr (map JStr (split_dot t)) | _ \<Rightarrow> path) in
      case get_propS parts ''length'' s of
        (Inl e, s1) \<Rightarrow> (Inl e, s1)
      | (Inr len, s1) \<Rightarrow>
          if len = JNum 1 then get_propS node (to_stringS s1 path) s1
          else
            (case get_propS node (to_stringS s1 (readS s1 parts ''0'')) s1 of
               (Inl e, s2) \<Rightarrow> (Inl e, s2)
             | (Inr property, s2) \<Rightarrow>
                 if truthy property \<and> js_gt (readS s2 parts ''length'') (JNum 1) then
                   (case array_shift parts s2 of
                      (Inl e, s3) \<Rightarrow> (Inl e, s3)
                    | (Inr shifted, s3) \<Rightarrow> getPropertyValueS property shifted s3)
                 else (Inr property, s2)))"
  by pat_completeness auto

definition parts_length :: "store \<Rightarrow> jsval \<Rightarrow> nat" where
  "parts_length s path =
     (case path of
        JStr t \<Rightarrow> length (split_dot t)
      | JArr xs \<Rightarrow> length xs
      | JRef a \<Rightarrow> (case s a of ArrayCell xs \<Rightarrow> length xs | ObjectCell ob \<Rightarrow> 0)
      | _ \<Rightarrow> 0)"

termination getPropertyValueS
  apply (relation "measure (\<lambda>(node, path, s). parts_length s path)")
   apply simp
  apply (auto simp: parts_length_def get_propS_def array_shift_def bindS_def elementsS_def
      set_elementsS_def js_gt_def nullish_def
      split: jsval.splits cell.splits if_splits prod.splits sum.splits option.splits)
  done

declare getPropertyValueS.simps [simp del]

subsection \<open>collectObjectPatternBindings and isEmptyMethod\<close>

text \<open>
  \<^verbatim>\<open>Object.keys(initialObjToBinding)\<close>, as the test whether a name is among the keys;
  the binding map is an object of the store, or any other value.
\<close>

definition own_keysS :: "jsval \<Rightarrow> (string \<Rightarrow> bool) action" where
  "own_keysS v s =
     (if nullish v then Inl TypeError
      else Inr (\<lambda>k. case v of
                  JRef a \<Rightarrow> (case s a of
                               ObjectCell ob \<Rightarrow> ob k \<noteq> None
                             | ArrayCell xs \<Rightarrow> (case index_of_key k of None \<Rightarrow> False | Some i \<Rightarrow> i < length xs))
                | JArr xs \<Rightarrow> (case index_of_key k of None \<Rightarrow> False | Some i \<Rightarrow> i < length xs)
                | JStr t \<Rightarrow> (case index_of_key k of None \<Rightarrow> False | Some i \<Rightarrow> i < length t)
                | _ \<Rightarrow> False), s)"

text \<open>
  \<^verbatim>\<open>
  if (!isObjectPattern(node.id)) { return []; }
  const identifiers = Object.keys(initialObjToBinding);
  const objBindingName = node.init.name;
  const bindingIndex = identifiers.indexOf(objBindingName);
  if (bindingIndex === -1) { return []; }
  const binding = identifiers[bindingIndex];
  return node.id.properties
    .filter((props) => initialObjToBinding[binding].includes(props.key.name))
    .map((props) => props.value.name);
  \<close>
\<close>

definition collectObjectPatternBindingsS :: "jsval \<Rightarrow> jsval \<Rightarrow> jsval action" where
  "collectObjectPatternBindingsS node initialObjToBinding =
     bindS (get_propS node ''id'') (\<lambda>nodeId.
     bindS (isS ''ObjectPattern'' nodeId) (\<lambda>isPattern.
     if \<not> isPattern then returnS (JArr [])
     else
       bindS (own_keysS initialObjToBinding) (\<lambda>identifiers.
       bindS (get_propS node ''init'') (\<lambda>init.
       bindS (get_propS init ''name'') (\<lambda>objBindingName.
       case objBindingName of
         JStr binding \<Rightarrow>
           if \<not> identifiers binding then returnS (JArr [])
           else
             bindS (get_propS node ''id'') (\<lambda>nodeId.
             bindS (get_propS nodeId ''properties'') (\<lambda>properties.
             bindS (array_filter (\<lambda>props.
                      bindS (get_propS initialObjToBinding binding) (\<lambda>bound.
                      bindS (get_propS props ''key'') (\<lambda>key.
                      bindS (get_propS key ''name'') (\<lambda>keyName.
                      js_includes bound keyName)))) properties) (\<lambda>kept.
             array_map (\<lambda>props.
                          bindS (get_propS props ''value'') (\<lambda>v. get_propS v ''name'')) kept)))
       | _ \<Rightarrow> returnS (JArr []))))))"

text \<open>
  \<^verbatim>\<open>return node.value.body && node.value.body.body && node.value.body.body.length <= 0;\<close>
\<close>

definition isEmptyMethodS :: "jsval \<Rightarrow> jsval action" where
  "isEmptyMethodS node =
     bindS (get_propS node ''value'') (\<lambda>v.
     bindS (get_propS v ''body'') (\<lambda>body.
     if \<not> truthy body then returnS body
     else
       bindS (get_propS node ''value'') (\<lambda>v.
       bindS (get_propS v ''body'') (\<lambda>body.
       bindS (get_propS body ''body'') (\<lambda>statements.
       if \<not> truthy statements then returnS statements
       else
         bindS (get_propS node ''value'') (\<lambda>v.
         bindS (get_propS v ''body'') (\<lambda>body.
         bindS (get_propS body ''body'') (\<lambda>statements.
         bindS (get_propS statements ''length'') (\<lambda>n.
         returnS (JBool (le_zero n)))))))))))"

subsection \<open>getAncestor, isInLeftSideOfAssignmentExpression and getName\<close>

text \<open>
  \<^verbatim>\<open>
  let currentNode = node;
  while (currentNode) {
    if (predicate(currentNode)) { return currentNode; }
    currentNode = currentNode.parent;
  }
  return null;
  \<close>
  The predicate is the caller's function: an action, which may write to the store.
\<close>

partial_function (option) getAncestorS ::
  "jsval \<Rightarrow> (jsval \<Rightarrow> jsval action) \<Rightarrow> store \<Rightarrow> ((error + jsval) \<times> store) option" where
  "getAncestorS currentNode predicate s =
     (if truthy currentNode then
        (case predicate currentNode s of
           (Inl e, s') \<Rightarrow> Some (Inl e, s')
         | (Inr found, s') \<Rightarrow>
             if truthy found then Some (Inr currentNode, s')
             else getAncestorS (readS s' currentNode ''parent'') predicate s')
      else Some (Inr Null, s))"

declare getAncestorS.simps [code]

text \<open>
  \<^verbatim>\<open>
  (ancestor) =>
    ancestor.parent &&
    isAssignmentExpression(ancestor.parent) &&
    ancestor === ancestor.parent.left
  \<close>
\<close>

definition leftSidePredicateS :: "jsval \<Rightarrow> jsval action" where
  "leftSidePredicateS ancestor =
     bindS (get_propS ancestor ''parent'') (\<lambda>parent.
     if \<not> truthy parent then returnS parent
     else
       bindS (get_propS ancestor ''parent'') (\<lambda>parent.
       bindS (isS ''AssignmentExpression'' parent) (\<lambda>isAssignment.
       if \<not> isAssignment then returnS (JBool False)
       else
         bindS (get_propS ancestor ''parent'') (\<lambda>parent.
         bindS (get_propS parent ''left'') (\<lambda>left.
         returnS (JBool (ancestor = left)))))))"

definition isInLeftSideOfAssignmentExpressionS ::
  "jsval \<Rightarrow> store \<Rightarrow> ((error + bool) \<times> store) option" where
  "isInLeftSideOfAssignmentExpressionS node s =
     (case getAncestorS node leftSidePredicateS s of
        None \<Rightarrow> None
      | Some (Inl e, s') \<Rightarrow> Some (Inl e, s')
      | Some (Inr found, s') \<Rightarrow> Some (Inr (truthy found), s'))"

text \<open>
  \<^verbatim>\<open>
  if (isIdentifier(node)) {
    return node.name;
  } else if (isCallExpression(node) || isOptionalCallExpression(node)) {
    return getName(node.callee);
  } else if (isMemberExpression(node) || isOptionalMemberExpression(node)) {
    return `${getName(node.object)}.${getName(node.property)}`;
  }
  return undefined;
  \<close>
\<close>

partial_function (option) getNameS :: "jsval \<Rightarrow> store \<Rightarrow> (jsval \<times> store) option" where
  "getNameS node s =
     (if is_typeS ''Identifier'' s node then Some (readS s node ''name'', s)
      else if is_typeS ''CallExpression'' s node \<or> is_typeS ''OptionalCallExpression'' s node then
        getNameS (readS s node ''callee'') s
      else if is_typeS ''MemberExpression'' s node \<or> is_typeS ''OptionalMemberExpression'' s node then
        Option.bind (getNameS (readS s node ''object'') s) (\<lambda>(objectName, s1).
        Option.bind (getNameS (readS s1 node ''property'') s1) (\<lambda>(propertyName, s2).
        Some (JStr (to_stringS s2 objectName @ ''.'' @ to_stringS s2 propertyName), s2)))
      else Some (Undefined, s))"

declare getNameS.simps [code]

subsection \<open>What it is to leave the store\<close>

text \<open>
  A call in a store \<open>s\<close> is a pure read when the store it leaves is \<open>s\<close> and the same
  call, made again in the store it has left, gives the same result and the same store.
  A function is a pure read when its call is one in every store; for a function that
  loops over the tree, in every store where the call returns.
\<close>

definition repeatable_at :: "'a action \<Rightarrow> store \<Rightarrow> bool" where
  "repeatable_at m s = (snd (m s) = s \<and> m (snd (m s)) = m s)"

definition reads_only :: "'a action \<Rightarrow> bool" where
  "reads_only m = (\<forall>s. repeatable_at m s)"

definition reads_only_on_return :: "(store \<Rightarrow> ('a \<times> store) option) \<Rightarrow> bool" where
  "reads_only_on_return m = (\<forall>s r s'. m s = Some (r, s') \<longrightarrow> s' = s \<and> m s' = Some (r, s'))"

definition leaves_store :: "'a action \<Rightarrow> bool" where
  "leaves_store m = (\<forall>s. snd (m s) = s)"

subsection \<open>An example store\<close>

text \<open>
  \<^verbatim>\<open>Ember.computed.alias('x', 0)\<close> with its \<^verbatim>\<open>arguments\<close> array at address 6, and at
  address 10 an array \<^verbatim>\<open>['callee', 'type']\<close> that a caller holds to use as a path. The
  assignment \<^verbatim>\<open>this.x = 1\<close> is at address 20, its left side at 21 with the parts
  \<^verbatim>\<open>this\<close> at 22 and \<^verbatim>\<open>x\<close> at 23; the declarator of \<^verbatim>\<open>const { $: foo } = Ember\<close> is
  at address 30, with the binding map \<^verbatim>\<open>{ Ember: ['$'] }\<close> at 37; the properties
  \<^verbatim>\<open>[{ order: 1 }, { order: 3 }, { order: 2 }]\<close> are at address 40; a method with the
  empty body \<^verbatim>\<open>{}\<close>, on lines 3 to 5, is at address 50.
\<close>

definition store_of :: "(addr \<times> cell) list \<Rightarrow> store" where
  "store_of cells a = (case map_of cells a of None \<Rightarrow> ObjectCell Map.empty | Some c \<Rightarrow> c)"

definition ember_store :: store where
  "ember_store = store_of
     [(0, ObjectCell [''type'' \<mapsto> JStr ''CallExpression'', ''callee'' \<mapsto> JRef 1,
                      ''arguments'' \<mapsto> JRef 6]),
      (1, ObjectCell [''type'' \<mapsto> JStr ''MemberExpression'', ''object'' \<mapsto> JRef 2,
                      ''property'' \<mapsto> JRef 3, ''computed'' \<mapsto> JBool False]),
      (2, ObjectCell [''type'' \<mapsto> JStr ''MemberExpression'', ''object'' \<mapsto> JRef 4,
                      ''property'' \<mapsto> JRef 5, ''computed'' \<mapsto> JBool False]),
      (3, ObjectCell [''type'' \<mapsto> JStr ''Identifier'', ''name'' \<mapsto> JStr ''alias'']),
      (4, ObjectCell [''type'' \<mapsto> JStr ''Identifier'', ''name'' \<mapsto> JStr ''Ember'']),
      (5, ObjectCell [''type'' \<mapsto> JStr ''Identifier'', ''name'' \<mapsto> JStr ''computed'']),
      (6, ArrayCell [JRef 7, JRef 8]),
      (7, ObjectCell [''type'' \<mapsto> JStr ''Literal'', ''value'' \<mapsto> JStr ''x'']),
      (8, ObjectCell [''type'' \<mapsto> JStr ''Literal'', ''value'' \<mapsto> JNum 0]),
      (10, ArrayCell [JStr ''callee'', JStr ''type'']),
      (20, ObjectCell [''type'' \<mapsto> JStr ''AssignmentExpression'', ''left'' \<mapsto> JRef 21,
                       ''right'' \<mapsto> JRef 24]),
      (21, ObjectCell [''type'' \<mapsto> JStr ''MemberExpression'', ''object'' \<mapsto> JRef 22,
                       ''property'' \<mapsto> JRef 23, ''parent'' \<mapsto> JRef 20]),
      (22, ObjectCell [''type'' \<mapsto> JStr ''ThisExpression'', ''parent'' \<mapsto> JRef 21]),
      (23, ObjectCell [''type'' \<mapsto> JStr ''Identifier'', ''name'' \<mapsto> JStr ''x'',
                       ''parent'' \<mapsto> JRef 21]),
      (24, ObjectCell [''type'' \<mapsto> JStr ''Literal'', ''value'' \<mapsto> JNum 1,
                       ''parent'' \<mapsto> JRef 20]),
      (30, ObjectCell [''type'' \<mapsto> JStr ''VariableDeclarator'', ''id'' \<mapsto> JRef 31,
                       ''init'' \<mapsto> JRef 32]),
      (31, ObjectCell [''type'' \<mapsto> JStr ''ObjectPattern'', ''properties'' \<mapsto> JRef 33]),
      (32, ObjectCell [''type'' \<mapsto> JStr ''Identifier'', ''name'' \<mapsto> JStr ''Ember'']),
      (33, ArrayCell [JRef 34]),
      (34, ObjectCell [''type'' \<mapsto> JStr ''Property'', ''key'' \<mapsto> JRef 35,
                       ''value'' \<mapsto> JRef 36]),
      (35, ObjectCell [''type'' \<mapsto> JStr ''Identifier'', ''name'' \<mapsto> JStr ''$'']),
      (36, ObjectCell [''type'' \<mapsto> JStr ''Identifier'', ''name'' \<mapsto> JStr ''foo'']),
      (37, ObjectCell [''Ember'' \<mapsto> JRef 38]),
      (38, ArrayCell [JStr ''$'']),
      (40, ArrayCell [JRef 41, JRef 42, JRef 43]),
      (41, ObjectCell [''order'' \<mapsto> JNum 1]),
      (42, ObjectCell [''order'' \<mapsto> JNum 3]),
      (43, ObjectCell [''order'' \<mapsto> JNum 2]),
      (50, ObjectCell [''type'' \<mapsto> JStr ''Property'', ''value'' \<mapsto> JRef 51,
                       ''loc'' \<mapsto> JRef 54]),
      (51, ObjectCell [''type'' \<mapsto> JStr ''FunctionExpression'', ''body'' \<mapsto> JRef 52]),
      (52, ObjectCell [''type'' \<mapsto> JStr ''BlockStatement'', ''body'' \<mapsto> JRef 53]),
      (53, ArrayCell []),
      (54, ObjectCell [''start'' \<mapsto> JRef 55, ''end'' \<mapsto> JRef 56]),
      (55, ObjectCell [''line'' \<mapsto> JNum 3]),
      (56, ObjectCell [''line'' \<mapsto> JNum 5])]"

section \<open>Basic facts about values and reads\<close>

lemma is_type_unique: "is_type s h v \<Longrightarrow> is_type t h v \<Longrightarrow> s = t"
  by (auto simp: is_type_def split: jsval.splits)

lemma is_type_not_nullish: "is_type t h v \<Longrightarrow> \<not> nullish v"
  by (auto simp: is_type_def nullish_def split: jsval.splits)

lemma is_type_truthy: "is_type t h v \<Longrightarrow> truthy v"
  by (auto simp: is_type_def split: jsval.splits)

lemma truthy_not_nullish: "truthy v \<Longrightarrow> \<not> nullish v"
  by (cases v) (auto simp: nullish_def)

lemma get_prop_not_nullish: "\<not> nullish v \<Longrightarrow> get_prop h v k = Inr (read h v k)"
  by (simp add: get_prop_def)

lemma get_prop_nullish: "nullish v \<Longrightarrow> get_prop h v k = Inl TypeError"
  by (simp add: get_prop_def)

lemma read_nullish: "nullish v \<Longrightarrow> read h v k = Undefined"
  by (auto simp: nullish_def)

text \<open>A read guarded by a type predicate does not throw.\<close>

lemma is_type_get_prop: "is_type t h v \<Longrightarrow> get_prop h v k = Inr (read h v k)"
  by (simp add: get_prop_not_nullish is_type_not_nullish)

text \<open>A pass whose callback does not throw is the plain \<open>filter\<close> or \<open>map\<close>.\<close>

lemma filterE_total:
  "(\<And>x. x \<in> set xs \<Longrightarrow> p x = Inr (q x)) \<Longrightarrow> filterE p xs = Inr (filter q xs)"
  by (induction xs) auto

lemma mapE_total:
  "(\<And>x. x \<in> set xs \<Longrightarrow> f x = Inr (g x)) \<Longrightarrow> mapE f xs = Inr (map g xs)"
  by (induction xs) auto

section \<open>Properties of parseCallee\<close>

text \<open>
  The loop on a chain: it stops at the identifier root, having pushed the property names
  from the leaf towards the root.
\<close>

lemma parseCallee_while_chain:
  "callee_chain h c names \<Longrightarrow>
   \<exists>r acc'. parseCallee_while h c acc = Some (r, acc') \<and> isIdentifier h r \<and>
            rev (acc' @ [read h r ''name'']) = names @ rev acc"
proof (induction arbitrary: acc rule: callee_chain.induct)
  case (root c)
  then have "\<not> isMemberExpression h c" by (auto dest: is_type_unique)
  with root show ?case by (subst parseCallee_while.simps) simp
next
  case (member c names)
  from member.IH[of "acc @ [read h (read h c ''property'') ''name'']"] member.hyps(1,2)
  show ?case by (subst parseCallee_while.simps) simp
next
  case (skip c names)
  from skip.IH[of acc] skip.hyps(1,2)
  show ?case by (subst parseCallee_while.simps) simp
qed

text \<open>
  C1. On a call or \<^verbatim>\<open>new\<close> expression whose callee is a chain of member expressions
  over an identifier, \<^verbatim>\<open>parseCallee\<close> returns the recorded names from the root to the
  leaf; on a node that is neither a call nor a \<^verbatim>\<open>new\<close> expression it returns the
  empty array.
\<close>

theorem parseCallee_root_to_leaf:
  "((isCallExpression h node \<or> isNewExpression h node) \<and>
      callee_chain h (read h node ''callee'') names
      \<longrightarrow> parseCallee h node = Some names) \<and>
   (\<not> isCallExpression h node \<and> \<not> isNewExpression h node \<longrightarrow> parseCallee h node = Some [])"
proof (intro conjI impI)
  assume a: "(isCallExpression h node \<or> isNewExpression h node) \<and>
      callee_chain h (read h node ''callee'') names"
  then obtain r acc' where w: "parseCallee_while h (read h node ''callee'') [] = Some (r, acc')"
    and r: "isIdentifier h r" and n: "rev (acc' @ [read h r ''name'']) = names @ rev []"
    using parseCallee_while_chain[of h "read h node ''callee''" names "[]"] by blast
  from a w r n show "parseCallee h node = Some names"
    by (simp add: parseCallee_def)
next
  assume "\<not> isCallExpression h node \<and> \<not> isNewExpression h node"
  then show "parseCallee h node = Some []" by (simp add: parseCallee_def)
qed

lemma ember_callee_chain:
  "callee_chain ember_heap (JRef 1) [JStr ''Ember'', JStr ''computed'', JStr ''alias'']"
proof -
  have e: "callee_chain ember_heap (JRef 4) [read ember_heap (JRef 4) ''name'']"
    by (rule callee_chain.root) (simp add: ember_heap_def heap_of_def is_type_def)
  have c: "callee_chain ember_heap (JRef 2)
             ([read ember_heap (JRef 4) ''name'']
              @ [read ember_heap (read ember_heap (JRef 2) ''property'') ''name''])"
    by (rule callee_chain.member) (use e in \<open>simp_all add: ember_heap_def heap_of_def is_type_def\<close>)
  have "callee_chain ember_heap (JRef 1)
          (([read ember_heap (JRef 4) ''name'']
            @ [read ember_heap (read ember_heap (JRef 2) ''property'') ''name''])
           @ [read ember_heap (read ember_heap (JRef 1) ''property'') ''name''])"
    by (rule callee_chain.member) (use c in \<open>simp_all add: ember_heap_def heap_of_def is_type_def\<close>)
  then show ?thesis by (simp add: ember_heap_def heap_of_def)
qed

text \<open>
  On \<^verbatim>\<open>Ember.computed.alias()\<close> the result is \<^verbatim>\<open>['Ember', 'computed', 'alias']\<close>; on
  the identifier \<^verbatim>\<open>Ember\<close>, which is not a call, it is empty.
\<close>

theorem parseCallee_root_to_leaf_witness:
  "(isCallExpression ember_heap (JRef 0) \<and>
    callee_chain ember_heap (read ember_heap (JRef 0) ''callee'')
      [JStr ''Ember'', JStr ''computed'', JStr ''alias''] \<and>
    parseCallee ember_heap (JRef 0) = Some [JStr ''Ember'', JStr ''computed'', JStr ''alias'']) \<and>
   (\<not> isCallExpression ember_heap (JRef 4) \<and> \<not> isNewExpression ember_heap (JRef 4) \<and>
    parseCallee ember_heap (JRef 4) = Some [])"
proof -
  have c: "isCallExpression ember_heap (JRef 0)"
    by (simp add: ember_heap_def heap_of_def is_type_def)
  have n: "\<not> isCallExpression ember_heap (JRef 4) \<and> \<not> isNewExpression ember_heap (JRef 4)"
    by (simp add: ember_heap_def heap_of_def is_type_def)
  have k: "read ember_heap (JRef 0) ''callee'' = JRef 1"
    by (simp add: ember_heap_def heap_of_def)
  from parseCallee_root_to_leaf[of ember_heap "JRef 0"
         "[JStr ''Ember'', JStr ''computed'', JStr ''alias'']"]
       parseCallee_root_to_leaf[of ember_heap "JRef 4" "[]"] c n k ember_callee_chain
  show ?thesis by simp
qed

text \<open>
  C2, as stated, fails: \<^verbatim>\<open>parseCallee\<close> never reads \<^verbatim>\<open>computed\<close>. On
  \<^verbatim>\<open>a[dynamic]()\<close> the access is computed and its key expression is an identifier, so
  the name \<^verbatim>\<open>dynamic\<close> is recorded.
\<close>

theorem parseCallee_computed_counterexample:
  "isCallExpression dynamic_heap (JRef 0) \<and>
   read dynamic_heap (read dynamic_heap (JRef 0) ''callee'') ''computed'' = JBool True \<and>
   parseCallee dynamic_heap (JRef 0) = Some [JStr ''a'', JStr ''dynamic'']"
  by (simp add: parseCallee_def parseCallee_while.simps dynamic_heap_def heap_of_def is_type_def)

text \<open>
  C2, amended. While it walks the callee chain, \<^verbatim>\<open>parseCallee\<close> records the name of
  a member expression's property exactly when the property node is an identifier,
  whatever \<^verbatim>\<open>computed\<close> says, and passes over a property that is any other node (a
  literal, an expression), going on to the object in both cases. So on a callee that
  is a member expression over an identifier root it returns the root's name, followed
  by the property's name when the property node is an identifier.
\<close>

theorem parseCallee_records_identifier_properties:
  "(isMemberExpression h callee \<and> isIdentifier h (read h callee ''property'')
      \<longrightarrow> parseCallee_while h callee parsedCallee =
           parseCallee_while h (read h callee ''object'')
             (parsedCallee @ [read h (read h callee ''property'') ''name''])) \<and>
   (isMemberExpression h callee \<and> \<not> isIdentifier h (read h callee ''property'')
      \<longrightarrow> parseCallee_while h callee parsedCallee =
           parseCallee_while h (read h callee ''object'') parsedCallee) \<and>
   ((isCallExpression h node \<or> isNewExpression h node) \<and>
    isMemberExpression h (read h node ''callee'') \<and>
    isIdentifier h (read h (read h node ''callee'') ''object'')
      \<longrightarrow> parseCallee h node =
           Some (read h (read h (read h node ''callee'') ''object'') ''name'' #
                 (if isIdentifier h (read h (read h node ''callee'') ''property'')
                  then [read h (read h (read h node ''callee'') ''property'') ''name'']
                  else [])))"
proof (intro conjI impI)
  assume "isMemberExpression h callee \<and> isIdentifier h (read h callee ''property'')"
  then show "parseCallee_while h callee parsedCallee =
           parseCallee_while h (read h callee ''object'')
             (parsedCallee @ [read h (read h callee ''property'') ''name''])"
    by (subst parseCallee_while.simps) simp
next
  assume "isMemberExpression h callee \<and> \<not> isIdentifier h (read h callee ''property'')"
  then show "parseCallee_while h callee parsedCallee =
           parseCallee_while h (read h callee ''object'') parsedCallee"
    by (subst parseCallee_while.simps) simp
next
  let ?callee = "read h node ''callee''"
  let ?root = "read h ?callee ''object''"
  assume a: "(isCallExpression h node \<or> isNewExpression h node) \<and>
    isMemberExpression h ?callee \<and> isIdentifier h ?root"
  then have "\<not> isMemberExpression h ?root" by (auto dest: is_type_unique)
  with a have "parseCallee_while h ?callee [] =
     Some (?root, if isIdentifier h (read h ?callee ''property'')
                  then [read h (read h ?callee ''property'') ''name''] else [])"
    by (subst parseCallee_while.simps, subst parseCallee_while.simps) simp
  with a show "parseCallee h node =
           Some (read h ?root ''name'' #
                 (if isIdentifier h (read h ?callee ''property'')
                  then [read h (read h ?callee ''property'') ''name'']
                  else []))"
    by (simp add: parseCallee_def)
qed

text \<open>
  On \<^verbatim>\<open>new a['x']()\<close> the loop passes over the literal key and the result is
  \<^verbatim>\<open>['a']\<close>; on \<^verbatim>\<open>a[dynamic]()\<close> the loop pushes \<^verbatim>\<open>dynamic\<close>.
\<close>

theorem parseCallee_records_identifier_properties_witness:
  "isMemberExpression dynamic_heap (JRef 1) \<and>
   isIdentifier dynamic_heap (read dynamic_heap (JRef 1) ''property'') \<and>
   parseCallee_while dynamic_heap (JRef 1) [] =
     parseCallee_while dynamic_heap (JRef 2) [JStr ''dynamic''] \<and>
   isMemberExpression literal_key_heap (JRef 1) \<and>
   \<not> isIdentifier literal_key_heap (read literal_key_heap (JRef 1) ''property'') \<and>
   parseCallee_while literal_key_heap (JRef 1) [] = parseCallee_while literal_key_heap (JRef 2) [] \<and>
   isNewExpression literal_key_heap (JRef 0) \<and>
   isMemberExpression literal_key_heap (read literal_key_heap (JRef 0) ''callee'') \<and>
   isIdentifier literal_key_heap
     (read literal_key_heap (read literal_key_heap (JRef 0) ''callee'') ''object'') \<and>
   parseCallee literal_key_heap (JRef 0) = Some [JStr ''a'']"
proof -
  let ?D = dynamic_heap and ?L = literal_key_heap
  have d: "isMemberExpression ?D (JRef 1)" "isIdentifier ?D (read ?D (JRef 1) ''property'')"
    "read ?D (JRef 1) ''object'' = JRef 2"
    "read ?D (read ?D (JRef 1) ''property'') ''name'' = JStr ''dynamic''"
    by (simp_all add: dynamic_heap_def heap_of_def is_type_def)
  have l: "isMemberExpression ?L (JRef 1)" "\<not> isIdentifier ?L (read ?L (JRef 1) ''property'')"
    "read ?L (JRef 1) ''object'' = JRef 2" "isNewExpression ?L (JRef 0)"
    "read ?L (JRef 0) ''callee'' = JRef 1" "isIdentifier ?L (JRef 2)"
    "read ?L (JRef 2) ''name'' = JStr ''a''"
    by (simp_all add: literal_key_heap_def heap_of_def is_type_def)
  from parseCallee_records_identifier_properties[of ?D "JRef 1" "[]"] d
  have r1: "parseCallee_while ?D (JRef 1) [] = parseCallee_while ?D (JRef 2) [JStr ''dynamic'']"
    by simp
  from parseCallee_records_identifier_properties[of ?L "JRef 1" "[]"] l
  have r2: "parseCallee_while ?L (JRef 1) [] = parseCallee_while ?L (JRef 2) []"
    by simp
  from parseCallee_records_identifier_properties[of ?L _ _ "JRef 0"] l
  have r3: "parseCallee ?L (JRef 0) = Some [JStr ''a'']"
    by simp
  from d l r1 r2 r3 show ?thesis by simp
qed

section \<open>Properties of parseArgs\<close>

text \<open>
  C3. On a call expression \<^verbatim>\<open>parseArgs\<close> returns the values of the arguments that
  are literals with a truthy value, in the order of the arguments; on a node that is not
  a call expression it returns the empty array.
\<close>

theorem parseArgs_truthy_literals:
  "(isCallExpression h node \<and> read h node ''arguments'' = JArr args
      \<longrightarrow> parseArgs h node =
           Inr (map (\<lambda>argument. read h argument ''value'')
                  (filter (\<lambda>argument. isLiteral h argument \<and> truthy (read h argument ''value''))
                     args))) \<and>
   (\<not> isCallExpression h node \<longrightarrow> parseArgs h node = Inr [])"
proof (intro conjI impI)
  assume a: "isCallExpression h node \<and> read h node ''arguments'' = JArr args"
  let ?q = "\<lambda>argument. isLiteral h argument \<and> truthy (read h argument ''value'')"
  have f: "filterE (\<lambda>argument.
                 if isLiteral h argument
                 then bindE (get_prop h argument ''value'') (\<lambda>v. Inr (truthy v))
                 else Inr False) args = Inr (filter ?q args)"
    by (rule filterE_total) (simp add: is_type_get_prop[of "''Literal''"] bindE_def)
  have m: "mapE (\<lambda>argument. get_prop h argument ''value'') (filter ?q args)
           = Inr (map (\<lambda>argument. read h argument ''value'') (filter ?q args))"
    by (rule mapE_total) (simp add: is_type_get_prop[of "''Literal''"])
  from a f m show "parseArgs h node =
           Inr (map (\<lambda>argument. read h argument ''value'') (filter ?q args))"
    by (simp add: parseArgs_def bindE_def as_array_def)
next
  assume "\<not> isCallExpression h node"
  then show "parseArgs h node = Inr []" by (simp add: parseArgs_def)
qed

text \<open>
  On \<^verbatim>\<open>f('x', 0, 'y', null)\<close> the result is \<^verbatim>\<open>['x', 'y']\<close>; on the identifier
  \<^verbatim>\<open>f\<close> it is empty.
\<close>

theorem parseArgs_truthy_literals_witness:
  "(isCallExpression args_heap (JRef 0) \<and>
    read args_heap (JRef 0) ''arguments'' = JArr [JRef 2, JRef 3, JRef 4, JRef 5] \<and>
    parseArgs args_heap (JRef 0) = Inr [JStr ''x'', JStr ''y'']) \<and>
   (\<not> isCallExpression args_heap (JRef 1) \<and> parseArgs args_heap (JRef 1) = Inr [])"
proof -
  have c: "isCallExpression args_heap (JRef 0)"
    by (simp add: args_heap_def heap_of_def is_type_def)
  have a: "read args_heap (JRef 0) ''arguments'' = JArr [JRef 2, JRef 3, JRef 4, JRef 5]"
    by (simp add: args_heap_def heap_of_def)
  have n: "\<not> isCallExpression args_heap (JRef 1)"
    by (simp add: args_heap_def heap_of_def is_type_def)
  have v: "map (\<lambda>argument. read args_heap argument ''value'')
             (filter (\<lambda>argument. isLiteral args_heap argument \<and>
                        truthy (read args_heap argument ''value''))
                [JRef 2, JRef 3, JRef 4, JRef 5]) = [JStr ''x'', JStr ''y'']"
    by (simp add: args_heap_def heap_of_def is_type_def)
  from parseArgs_truthy_literals[of args_heap "JRef 0" "[JRef 2, JRef 3, JRef 4, JRef 5]"]
       parseArgs_truthy_literals[of args_heap "JRef 1" "[]"] c a n v
  show ?thesis by simp
qed

section \<open>Properties of findUnorderedProperty\<close>

text \<open>The scan from index \<open>i\<close> finds nothing when no pair from \<open>i\<close> on is out of order.\<close>

lemma findUnorderedProperty_for_none:
  "(\<And>j. i \<le> j \<Longrightarrow> j + 1 < length arr \<Longrightarrow> order (arr ! j) \<le> order (arr ! (j + 1))) \<Longrightarrow>
   findUnorderedProperty_for arr i = None"
proof (induction arr i rule: findUnorderedProperty_for.induct)
  case (1 arr i)
  show ?case
  proof (cases "int i < int (length arr) - 1")
    case True
    then have b: "i + 1 < length arr" by simp
    with "1.prems"[of i] have le: "\<not> order (arr ! i) > order (arr ! (i + 1))" by simp
    have "findUnorderedProperty_for arr (i + 1) = None"
      using "1.IH"[OF True le] "1.prems" by simp
    with True le show ?thesis by (subst findUnorderedProperty_for.simps) simp
  next
    case False
    then show ?thesis by (subst findUnorderedProperty_for.simps) simp
  qed
qed

text \<open>The scan from index \<open>i\<close> returns the element at the first pair out of order.\<close>

lemma findUnorderedProperty_for_first:
  "i \<le> k \<Longrightarrow> k + 1 < length arr \<Longrightarrow> order (arr ! k) > order (arr ! (k + 1)) \<Longrightarrow>
   (\<And>j. i \<le> j \<Longrightarrow> j < k \<Longrightarrow> order (arr ! j) \<le> order (arr ! (j + 1))) \<Longrightarrow>
   findUnorderedProperty_for arr i = Some (arr ! k)"
proof (induction arr i rule: findUnorderedProperty_for.induct)
  case (1 arr i)
  from "1.prems"(1,2) have t: "int i < int (length arr) - 1" by simp
  show ?case
  proof (cases "i = k")
    case True
    with t "1.prems"(3) show ?thesis by (subst findUnorderedProperty_for.simps) simp
  next
    case False
    with "1.prems"(1) have lt: "i < k" by simp
    with "1.prems"(4)[of i] have le: "\<not> order (arr ! i) > order (arr ! (i + 1))" by simp
    have "findUnorderedProperty_for arr (i + 1) = Some (arr ! k)"
      using "1.IH"[OF t le] lt "1.prems"(2,3,4) by simp
    with t le show ?thesis by (subst findUnorderedProperty_for.simps) simp
  qed
qed

text \<open>
  C7. On a sequence of records with a numeric \<^verbatim>\<open>order\<close>, \<^verbatim>\<open>findUnorderedProperty\<close>
  returns the first element, from the left, whose \<^verbatim>\<open>order\<close> exceeds that of its
  immediate successor, and \<^verbatim>\<open>null\<close> when the sequence is non-decreasing.
\<close>

theorem findUnorderedProperty_first_inversion:
  "(sorted (map order arr) \<longrightarrow> findUnorderedProperty arr = None) \<and>
   (\<not> sorted (map order arr) \<longrightarrow>
      (\<exists>i. i + 1 < length arr \<and> order (arr ! i) > order (arr ! (i + 1)) \<and>
           (\<forall>j<i. order (arr ! j) \<le> order (arr ! (j + 1))) \<and>
           findUnorderedProperty arr = Some (arr ! i)))"
proof (intro conjI impI)
  assume s: "sorted (map order arr)"
  have "\<And>j. j + 1 < length arr \<Longrightarrow> order (arr ! j) \<le> order (arr ! (j + 1))"
  proof -
    fix j assume j: "j + 1 < length arr"
    with s have "map order arr ! j \<le> map order arr ! (j + 1)"
      by (intro sorted_nth_mono) simp_all
    with j show "order (arr ! j) \<le> order (arr ! (j + 1))" by simp
  qed
  then show "findUnorderedProperty arr = None"
    unfolding findUnorderedProperty_def by (intro findUnorderedProperty_for_none) simp
next
  assume ns: "\<not> sorted (map order arr)"
  then obtain i where "Suc i < length (map order arr)"
      and "\<not> map order arr ! i \<le> map order arr ! Suc i"
    unfolding sorted_iff_nth_Suc by blast
  then have "i + 1 < length arr \<and> order (arr ! i) > order (arr ! (i + 1))"
    by simp
  then have ex: "\<exists>i. i + 1 < length arr \<and> order (arr ! i) > order (arr ! (i + 1))" ..
  define k where "k = (LEAST i. i + 1 < length arr \<and> order (arr ! i) > order (arr ! (i + 1)))"
  from ex have k: "k + 1 < length arr \<and> order (arr ! k) > order (arr ! (k + 1))"
    unfolding k_def by (rule LeastI_ex)
  have m: "\<And>j. j < k \<Longrightarrow> order (arr ! j) \<le> order (arr ! (j + 1))"
  proof -
    fix j assume j: "j < k"
    then have "\<not> (j + 1 < length arr \<and> order (arr ! j) > order (arr ! (j + 1)))"
      unfolding k_def by (rule not_less_Least)
    with j k show "order (arr ! j) \<le> order (arr ! (j + 1))" by simp
  qed
  have "findUnorderedProperty arr = Some (arr ! k)"
    unfolding findUnorderedProperty_def using k m by (intro findUnorderedProperty_for_first) simp_all
  with k m show "\<exists>i. i + 1 < length arr \<and> order (arr ! i) > order (arr ! (i + 1)) \<and>
           (\<forall>j<i. order (arr ! j) \<le> order (arr ! (j + 1))) \<and>
           findUnorderedProperty arr = Some (arr ! i)" by blast
qed

text \<open>
  On \<^verbatim>\<open>[{order: 1}, {order: 3}, {order: 2}]\<close> the result is the record with
  \<^verbatim>\<open>order\<close> 3; on \<^verbatim>\<open>[{order: 1}, {order: 2}, {order: 2}]\<close> it is \<^verbatim>\<open>null\<close>.
\<close>

theorem findUnorderedProperty_first_inversion_witness:
  "(sorted (map order ordered_properties) \<and> findUnorderedProperty ordered_properties = None) \<and>
   (\<not> sorted (map order unordered_properties) \<and>
    findUnorderedProperty unordered_properties = Some \<lparr>order = 3, \<dots> = ''second''\<rparr>)"
proof -
  have s: "sorted (map order ordered_properties)"
    by (simp add: ordered_properties_def)
  have n: "\<not> sorted (map order unordered_properties)"
    by (simp add: unordered_properties_def)
  from findUnorderedProperty_first_inversion[of unordered_properties] n
  obtain i where i: "i + 1 < length unordered_properties"
    and gt: "order (unordered_properties ! i) > order (unordered_properties ! (i + 1))"
    and r: "findUnorderedProperty unordered_properties = Some (unordered_properties ! i)"
    by blast
  from i have "i = 0 \<or> i = 1" by (auto simp: unordered_properties_def)
  with gt have "i = 1" by (auto simp: unordered_properties_def)
  with r have "findUnorderedProperty unordered_properties = Some \<lparr>order = 3, \<dots> = ''second''\<rparr>"
    by (simp add: unordered_properties_def)
  with findUnorderedProperty_first_inversion[of ordered_properties] s n show ?thesis by simp
qed

section \<open>Properties of getAncestor and isInLeftSideOfAssignmentExpression\<close>

text \<open>The predicate given to \<^verbatim>\<open>getAncestor\<close> is truthy exactly on a left side of an assignment.\<close>

lemma leftSidePredicate_truthy:
  "truthy (leftSidePredicate h a) = is_assignment_left h a"
  by (auto simp: leftSidePredicate_def is_assignment_left_def Let_def dest: is_type_truthy)

lemma getAncestor_finds:
  "on_parent_walk h n a \<Longrightarrow> truthy (p a) \<Longrightarrow>
   \<exists>r. getAncestor h n p = Some r \<and> on_parent_walk h n r \<and> truthy (p r)"
proof (induction rule: on_parent_walk.induct)
  case (here n)
  then show ?case
    by (subst getAncestor.simps) (auto intro: on_parent_walk.here)
next
  case (up n a)
  then obtain r where r: "getAncestor h (read h n ''parent'') p = Some r"
    and w: "on_parent_walk h (read h n ''parent'') r" and t: "truthy (p r)" by blast
  show ?case
  proof (cases "truthy (p n)")
    case True
    with up.hyps(1) show ?thesis
      by (subst getAncestor.simps) (auto intro: on_parent_walk.here)
  next
    case False
    with up.hyps(1) r w t show ?thesis
      by (subst getAncestor.simps) (auto intro: on_parent_walk.up)
  qed
qed

lemma getAncestor_found:
  assumes "getAncestor h n p = Some r"
  shows "r = Null \<or> (on_parent_walk h n r \<and> truthy (p r))"
proof (rule getAncestor.raw_induct
    [where P = "\<lambda>h n p r. r = Null \<or> (on_parent_walk h n r \<and> truthy (p r))", OF _ assms])
  fix walk :: "heap \<Rightarrow> jsval \<Rightarrow> (jsval \<Rightarrow> jsval) \<Rightarrow> jsval option"
    and h currentNode predicate r
  assume IH: "\<And>h n p r. walk h n p = Some r \<Longrightarrow>
                r = Null \<or> (on_parent_walk h n r \<and> truthy (p r))"
    and eq: "(if truthy currentNode
              then if truthy (predicate currentNode) then Some currentNode
                   else walk h (read h currentNode ''parent'') predicate
              else Some Null) = Some r"
  show "r = Null \<or> (on_parent_walk h currentNode r \<and> truthy (predicate r))"
  proof (cases "truthy currentNode")
    case False
    with eq show ?thesis by simp
  next
    case True
    show ?thesis
    proof (cases "truthy (predicate currentNode)")
      case t: True
      with True eq show ?thesis by (auto intro: on_parent_walk.here)
    next
      case f: False
      with True eq have "walk h (read h currentNode ''parent'') predicate = Some r"
        by simp
      from IH[OF this] True show ?thesis by (auto intro: on_parent_walk.up)
    qed
  qed
qed

lemma getAncestor_returns:
  "parent_walk_ends h n \<Longrightarrow> \<exists>r. getAncestor h n p = Some r"
proof (induction rule: parent_walk_ends.induct)
  case (stop n)
  then show ?case by (subst getAncestor.simps) simp
next
  case (step n)
  then show ?case by (subst getAncestor.simps) simp
qed

text \<open>
  C5. \<^verbatim>\<open>isInLeftSideOfAssignmentExpression\<close> answers true exactly when the upward walk
  from the node meets a node (the node itself included) that is the left side of an
  assignment expression; and on a node whose parent links end, as they do in a tree,
  it answers false in every other case.
\<close>

theorem isInLeftSideOfAssignmentExpression_iff:
  "(isInLeftSideOfAssignmentExpression h n = Some True \<longleftrightarrow>
      (\<exists>a. on_parent_walk h n a \<and> is_assignment_left h a)) \<and>
   (parent_walk_ends h n \<longrightarrow>
      isInLeftSideOfAssignmentExpression h n =
        Some (\<exists>a. on_parent_walk h n a \<and> is_assignment_left h a))"
proof -
  let ?p = "leftSidePredicate h"
  have iff: "isInLeftSideOfAssignmentExpression h n = Some True \<longleftrightarrow>
      (\<exists>a. on_parent_walk h n a \<and> is_assignment_left h a)"
  proof
    assume "isInLeftSideOfAssignmentExpression h n = Some True"
    then obtain r where r: "getAncestor h n ?p = Some r" and t: "truthy r"
      by (auto simp: isInLeftSideOfAssignmentExpression_def)
    from getAncestor_found[OF r] t have "on_parent_walk h n r \<and> truthy (?p r)" by auto
    then show "\<exists>a. on_parent_walk h n a \<and> is_assignment_left h a"
      by (auto simp: leftSidePredicate_truthy)
  next
    assume "\<exists>a. on_parent_walk h n a \<and> is_assignment_left h a"
    then obtain a where "on_parent_walk h n a" and "truthy (?p a)"
      by (auto simp: leftSidePredicate_truthy)
    from getAncestor_finds[where p = "?p", OF this] obtain r where "getAncestor h n ?p = Some r"
      and "on_parent_walk h n r" by blast
    moreover from \<open>on_parent_walk h n r\<close> have "truthy r"
      by (induction rule: on_parent_walk.induct) auto
    ultimately show "isInLeftSideOfAssignmentExpression h n = Some True"
      by (simp add: isInLeftSideOfAssignmentExpression_def)
  qed
  have tot: "isInLeftSideOfAssignmentExpression h n =
        Some (\<exists>a. on_parent_walk h n a \<and> is_assignment_left h a)" if "parent_walk_ends h n"
  proof -
    from getAncestor_returns[OF that, of ?p] obtain r where "getAncestor h n ?p = Some r" ..
    then have "isInLeftSideOfAssignmentExpression h n = Some (truthy r)"
      by (simp add: isInLeftSideOfAssignmentExpression_def)
    then obtain b where "isInLeftSideOfAssignmentExpression h n = Some b" ..
    with iff show ?thesis by (cases b) auto
  qed
  from iff tot show ?thesis by blast
qed

text \<open>
  For \<^verbatim>\<open>this.x.y = 1\<close> the nodes \<^verbatim>\<open>this\<close>, \<^verbatim>\<open>x\<close> and \<^verbatim>\<open>y\<close> answer true, each
  through its ancestor \<^verbatim>\<open>this.x.y\<close>, and the node \<^verbatim>\<open>1\<close> answers false.
\<close>

theorem isInLeftSideOfAssignmentExpression_iff_witness:
  "is_assignment_left assignment_heap (JRef 1) \<and>
   on_parent_walk assignment_heap (JRef 3) (JRef 1) \<and>
   isInLeftSideOfAssignmentExpression assignment_heap (JRef 3) = Some True \<and>
   on_parent_walk assignment_heap (JRef 4) (JRef 1) \<and>
   isInLeftSideOfAssignmentExpression assignment_heap (JRef 4) = Some True \<and>
   on_parent_walk assignment_heap (JRef 5) (JRef 1) \<and>
   isInLeftSideOfAssignmentExpression assignment_heap (JRef 5) = Some True \<and>
   parent_walk_ends assignment_heap (JRef 6) \<and>
   isInLeftSideOfAssignmentExpression assignment_heap (JRef 6) = Some False \<and>
   \<not> (\<exists>a. on_parent_walk assignment_heap (JRef 6) a \<and> is_assignment_left assignment_heap a)"
proof -
  let ?H = assignment_heap
  have l: "is_assignment_left ?H (JRef 1)"
    by (simp add: is_assignment_left_def assignment_heap_def heap_of_def is_type_def)
  have w1: "on_parent_walk ?H (JRef 1) (JRef 1)"
    by (rule on_parent_walk.here) simp
  have w2: "on_parent_walk ?H (JRef 2) (JRef 1)"
    by (rule on_parent_walk.up) (use w1 in \<open>simp_all add: assignment_heap_def heap_of_def\<close>)
  have w3: "on_parent_walk ?H (JRef 3) (JRef 1)"
    by (rule on_parent_walk.up) (use w2 in \<open>simp_all add: assignment_heap_def heap_of_def\<close>)
  have w4: "on_parent_walk ?H (JRef 4) (JRef 1)"
    by (rule on_parent_walk.up) (use w2 in \<open>simp_all add: assignment_heap_def heap_of_def\<close>)
  have w5: "on_parent_walk ?H (JRef 5) (JRef 1)"
    by (rule on_parent_walk.up) (use w1 in \<open>simp_all add: assignment_heap_def heap_of_def\<close>)
  have e: "parent_walk_ends ?H Null"
    by (rule parent_walk_ends.stop) simp
  have e8: "parent_walk_ends ?H (JRef 8)"
    by (rule parent_walk_ends.step) (use e in \<open>simp_all add: assignment_heap_def heap_of_def\<close>)
  have e7: "parent_walk_ends ?H (JRef 7)"
    by (rule parent_walk_ends.step) (use e8 in \<open>simp_all add: assignment_heap_def heap_of_def\<close>)
  have e0: "parent_walk_ends ?H (JRef 0)"
    by (rule parent_walk_ends.step) (use e7 in \<open>simp_all add: assignment_heap_def heap_of_def\<close>)
  have e6: "parent_walk_ends ?H (JRef 6)"
    by (rule parent_walk_ends.step) (use e0 in \<open>simp_all add: assignment_heap_def heap_of_def\<close>)
  have f: "isInLeftSideOfAssignmentExpression ?H (JRef 6) = Some False"
    by (simp add: isInLeftSideOfAssignmentExpression_def getAncestor.simps
        leftSidePredicate_def assignment_heap_def heap_of_def is_type_def)
  from isInLeftSideOfAssignmentExpression_iff[of ?H "JRef 3"] l w3
  have t3: "isInLeftSideOfAssignmentExpression ?H (JRef 3) = Some True" by blast
  from isInLeftSideOfAssignmentExpression_iff[of ?H "JRef 4"] l w4
  have t4: "isInLeftSideOfAssignmentExpression ?H (JRef 4) = Some True" by blast
  from isInLeftSideOfAssignmentExpression_iff[of ?H "JRef 5"] l w5
  have t5: "isInLeftSideOfAssignmentExpression ?H (JRef 5) = Some True" by blast
  from isInLeftSideOfAssignmentExpression_iff[of ?H "JRef 6"] e6 f
  have n6: "\<not> (\<exists>a. on_parent_walk ?H (JRef 6) a \<and> is_assignment_left ?H a)" by simp
  from l w3 w4 w5 e6 f t3 t4 t5 n6 show ?thesis by blast
qed

section \<open>Properties of getName\<close>

text \<open>
  C4, as stated, fails on its example: \<^verbatim>\<open>this\<close> is a \<^verbatim>\<open>ThisExpression\<close>, a variant
  for which \<^verbatim>\<open>getName\<close> returns \<^verbatim>\<open>undefined\<close>, and the template literal writes
  that as text. On the call \<^verbatim>\<open>this.x.y()\<close> the result is \<^verbatim>\<open>'undefined.x.y'\<close>.
\<close>

theorem getName_this_counterexample:
  "isCallExpression this_call_heap (JRef 0) \<and>
   getName this_call_heap (JRef 0) = Some (JStr ''undefined.x.y'') \<and>
   getName this_call_heap (JRef 0) \<noteq> Some (JStr ''this.x.y'')"
  by (simp add: getName.simps this_call_heap_def heap_of_def is_type_def)

text \<open>
  C4, amended. \<^verbatim>\<open>getName\<close> resolves a node by its variant: an identifier gives its
  name; a call or optional call gives the name of its callee; a member or optional
  member expression gives the text of its object's name, a dot and the text of its
  property's name, where a name that is \<^verbatim>\<open>undefined\<close> is written \<^verbatim>\<open>undefined\<close>; any
  other variant gives \<^verbatim>\<open>undefined\<close>.
\<close>

theorem getName_by_variant:
  "(isIdentifier h node \<longrightarrow> getName h node = Some (read h node ''name'')) \<and>
   (isCallExpression h node \<or> isOptionalCallExpression h node
      \<longrightarrow> getName h node = getName h (read h node ''callee'')) \<and>
   ((isMemberExpression h node \<or> isOptionalMemberExpression h node) \<and>
    getName h (read h node ''object'') = Some objectName \<and>
    getName h (read h node ''property'') = Some propertyName
      \<longrightarrow> getName h node = Some (JStr (to_string objectName @ ''.'' @ to_string propertyName))) \<and>
   ((isMemberExpression h node \<or> isOptionalMemberExpression h node) \<and>
    getName h (read h node ''object'') = Some Undefined \<and>
    getName h (read h node ''property'') = Some (JStr p)
      \<longrightarrow> getName h node = Some (JStr (''undefined.'' @ p))) \<and>
   (\<not> isIdentifier h node \<and> \<not> isCallExpression h node \<and> \<not> isOptionalCallExpression h node \<and>
    \<not> isMemberExpression h node \<and> \<not> isOptionalMemberExpression h node
      \<longrightarrow> getName h node = Some Undefined)"
proof (intro conjI impI)
  assume "isIdentifier h node"
  then show "getName h node = Some (read h node ''name'')"
    by (subst getName.simps) simp
next
  assume c: "isCallExpression h node \<or> isOptionalCallExpression h node"
  then have "\<not> isIdentifier h node" by (auto dest: is_type_unique)
  with c show "getName h node = getName h (read h node ''callee'')"
    by (subst getName.simps) simp
next
  assume m: "(isMemberExpression h node \<or> isOptionalMemberExpression h node) \<and>
    getName h (read h node ''object'') = Some objectName \<and>
    getName h (read h node ''property'') = Some propertyName"
  then have "\<not> isIdentifier h node"
    and "\<not> (isCallExpression h node \<or> isOptionalCallExpression h node)"
    by (auto dest: is_type_unique)
  with m show "getName h node = Some (JStr (to_string objectName @ ''.'' @ to_string propertyName))"
    by (subst getName.simps) simp
next
  assume m: "(isMemberExpression h node \<or> isOptionalMemberExpression h node) \<and>
    getName h (read h node ''object'') = Some Undefined \<and>
    getName h (read h node ''property'') = Some (JStr p)"
  then have "\<not> isIdentifier h node"
    and "\<not> (isCallExpression h node \<or> isOptionalCallExpression h node)"
    by (auto dest: is_type_unique)
  with m show "getName h node = Some (JStr (''undefined.'' @ p))"
    by (subst getName.simps) simp
next
  assume "\<not> isIdentifier h node \<and> \<not> isCallExpression h node \<and> \<not> isOptionalCallExpression h node \<and>
    \<not> isMemberExpression h node \<and> \<not> isOptionalMemberExpression h node"
  then show "getName h node = Some Undefined"
    by (subst getName.simps) simp
qed

text \<open>
  On \<^verbatim>\<open>this.x.y()\<close>: \<^verbatim>\<open>this\<close> has no name, \<^verbatim>\<open>this.x\<close> is \<^verbatim>\<open>'undefined.x'\<close>, the
  callee is \<^verbatim>\<open>'undefined.x.y'\<close> and the call has the name of its callee.
\<close>

theorem getName_by_variant_witness:
  "isIdentifier this_call_heap (JRef 4) \<and> getName this_call_heap (JRef 4) = Some (JStr ''x'') \<and>
   isIdentifier this_call_heap (JRef 5) \<and> getName this_call_heap (JRef 5) = Some (JStr ''y'') \<and>
   \<not> isIdentifier this_call_heap (JRef 3) \<and> \<not> isCallExpression this_call_heap (JRef 3) \<and>
   \<not> isOptionalCallExpression this_call_heap (JRef 3) \<and>
   \<not> isMemberExpression this_call_heap (JRef 3) \<and>
   \<not> isOptionalMemberExpression this_call_heap (JRef 3) \<and>
   getName this_call_heap (JRef 3) = Some Undefined \<and>
   isMemberExpression this_call_heap (JRef 2) \<and>
   getName this_call_heap (JRef 2) = Some (JStr ''undefined.x'') \<and>
   isMemberExpression this_call_heap (JRef 1) \<and>
   getName this_call_heap (JRef 1) = Some (JStr ''undefined.x.y'') \<and>
   isCallExpression this_call_heap (JRef 0) \<and>
   getName this_call_heap (JRef 0) = getName this_call_heap (JRef 1)"
proof -
  let ?H = this_call_heap
  have t: "isIdentifier ?H (JRef 4)" "isIdentifier ?H (JRef 5)"
    "\<not> isIdentifier ?H (JRef 3)" "\<not> isCallExpression ?H (JRef 3)"
    "\<not> isOptionalCallExpression ?H (JRef 3)" "\<not> isMemberExpression ?H (JRef 3)"
    "\<not> isOptionalMemberExpression ?H (JRef 3)"
    "isMemberExpression ?H (JRef 2)" "isMemberExpression ?H (JRef 1)"
    "isCallExpression ?H (JRef 0)"
    by (simp_all add: this_call_heap_def heap_of_def is_type_def)
  have r: "read ?H (JRef 4) ''name'' = JStr ''x''" "read ?H (JRef 5) ''name'' = JStr ''y''"
    "read ?H (JRef 2) ''object'' = JRef 3" "read ?H (JRef 2) ''property'' = JRef 4"
    "read ?H (JRef 1) ''object'' = JRef 2" "read ?H (JRef 1) ''property'' = JRef 5"
    "read ?H (JRef 0) ''callee'' = JRef 1"
    by (simp_all add: this_call_heap_def heap_of_def)
  from getName_by_variant[of ?H "JRef 4"] t r
  have n4: "getName ?H (JRef 4) = Some (JStr ''x'')" by simp
  from getName_by_variant[of ?H "JRef 5"] t r
  have n5: "getName ?H (JRef 5) = Some (JStr ''y'')" by simp
  from getName_by_variant[of ?H "JRef 3"] t
  have n3: "getName ?H (JRef 3) = Some Undefined" by simp
  from getName_by_variant[of ?H "JRef 2" Undefined "JStr ''x''" "''x''"] t r n3 n4
  have n2: "getName ?H (JRef 2) = Some (JStr ''undefined.x'')" by simp
  from getName_by_variant[of ?H "JRef 1" "JStr ''undefined.x''" "JStr ''y''"] t r n2 n5
  have n1: "getName ?H (JRef 1) = Some (JStr ''undefined.x.y'')" by simp
  from getName_by_variant[of ?H "JRef 0"] t r
  have n0: "getName ?H (JRef 0) = getName ?H (JRef 1)" by simp
  from t n0 n1 n2 n3 n4 n5 show ?thesis by simp
qed

section \<open>Properties of getPropertyValue\<close>

lemma split_dot_nonempty: "split_dot s \<noteq> []"
  by (induction s) (auto split: list.splits)

lemma split_dot_single: "length (split_dot s) = 1 \<Longrightarrow> split_dot s = [s]"
proof (induction s)
  case Nil
  then show ?case by simp
next
  case (Cons c cs)
  show ?case
  proof (cases "c = CHR ''.''")
    case True
    with Cons.prems split_dot_nonempty[of cs] show ?thesis by simp
  next
    case False
    from split_dot_nonempty[of cs] obtain p ps where s: "split_dot cs = p # ps"
      by (cases "split_dot cs") auto
    with False Cons.prems have "ps = []" by simp
    with s Cons.IH have "p = cs" by simp
    with False s \<open>ps = []\<close> show ?thesis by simp
  qed
qed

lemma path_key_single: "path_parts path = [k] \<Longrightarrow> path_key path = k"
proof (cases path)
  case (PathString s)
  assume "path_parts path = [k]"
  with PathString have "split_dot s = [k]" by simp
  moreover from this have "split_dot s = [s]" by (intro split_dot_single) simp
  ultimately show ?thesis using PathString by simp
next
  case (PathArray ps)
  assume "path_parts path = [k]"
  with PathArray show ?thesis by simp
qed

text \<open>One step of the function: a single name, and two names or more.\<close>

lemma getPropertyValue_single:
  "path_parts path = [k] \<Longrightarrow> getPropertyValue h node path = (get_prop h node k, path)"
  by (subst getPropertyValue.simps) (simp add: path_key_single)

lemma getPropertyValue_step:
  "path_parts path = k # k' # ks \<Longrightarrow> \<not> nullish node \<Longrightarrow>
   fst (getPropertyValue h node path) =
     (if truthy (read h node k) then fst (getPropertyValue h (read h node k) (PathArray (k' # ks)))
      else Inr (read h node k))"
  by (subst getPropertyValue.simps) (simp add: get_prop_not_nullish split: prod.splits)

text \<open>Every value before the last segment is truthy: the descent reaches the end of the path.\<close>

lemma getPropertyValue_all_truthy:
  assumes "\<not> nullish node" and "path_parts path = parts" and "parts \<noteq> []"
    and "\<And>i. 0 < i \<Longrightarrow> i < length parts \<Longrightarrow> truthy (lookup_path h node (take i parts))"
  shows "fst (getPropertyValue h node path) = Inr (lookup_path h node parts)"
  using assms
proof (induction parts arbitrary: node path)
  case Nil
  then show ?case by simp
next
  case (Cons k ks)
  note node = \<open>\<not> nullish node\<close> and parts = \<open>path_parts path = k # ks\<close>
  note truthy = Cons.prems(4)
  show ?case
  proof (cases ks)
    case Nil
    with node parts show ?thesis
      by (simp add: getPropertyValue_single get_prop_not_nullish)
  next
    case (Cons k' ks')
    from truthy[of 1] Cons have t: "truthy (read h node k)" by simp
    have "fst (getPropertyValue h (read h node k) (PathArray ks)) =
            Inr (lookup_path h (read h node k) ks)"
    proof (rule Cons.IH)
      show "\<not> nullish (read h node k)" using t by (rule truthy_not_nullish)
      show "path_parts (PathArray ks) = ks" by simp
      show "ks \<noteq> []" using Cons by simp
      fix i assume "0 < i" "i < length ks"
      with truthy[of "Suc i"] show "truthy (lookup_path h (read h node k) (take i ks))"
        by simp
    qed
    with Cons t node parts show ?thesis
      by (simp add: getPropertyValue_step)
  qed
qed

text \<open>The first falsy value before the last segment ends the descent and is the result.\<close>

lemma getPropertyValue_first_falsy:
  assumes "\<not> nullish node" and "path_parts path = parts"
    and "0 < i" and "i < length parts"
    and "\<not> truthy (lookup_path h node (take i parts))"
    and "\<And>j. 0 < j \<Longrightarrow> j < i \<Longrightarrow> truthy (lookup_path h node (take j parts))"
  shows "fst (getPropertyValue h node path) = Inr (lookup_path h node (take i parts))"
  using assms
proof (induction parts arbitrary: node path i)
  case Nil
  then show ?case by simp
next
  case (Cons k ks)
  note node = \<open>\<not> nullish node\<close> and parts = \<open>path_parts path = k # ks\<close>
  note falsy = \<open>\<not> truthy (lookup_path h node (take i (k # ks)))\<close>
  note truthy = Cons.prems(6)
  from \<open>0 < i\<close> \<open>i < length (k # ks)\<close> obtain k' ks' where ks: "ks = k' # ks'"
    by (cases ks) auto
  show ?case
  proof (cases "i = 1")
    case True
    with falsy have "\<not> truthy (read h node k)" by simp
    with True ks node parts show ?thesis by (simp add: getPropertyValue_step)
  next
    case False
    with \<open>0 < i\<close> obtain i' where i: "i = Suc i'" "0 < i'" by (cases i) auto
    from truthy[of 1] i have t: "truthy (read h node k)" by simp
    have "fst (getPropertyValue h (read h node k) (PathArray ks)) =
            Inr (lookup_path h (read h node k) (take i' ks))"
    proof (rule Cons.IH)
      show "\<not> nullish (read h node k)" using t by (rule truthy_not_nullish)
      show "path_parts (PathArray ks) = ks" by simp
      show "0 < i'" by (rule i(2))
      show "i' < length ks" using i \<open>i < length (k # ks)\<close> by simp
      show "\<not> truthy (lookup_path h (read h node k) (take i' ks))" using falsy i by simp
      fix j assume "0 < j" "j < i'"
      with truthy[of "Suc j"] i show "truthy (lookup_path h (read h node k) (take j ks))"
        by simp
    qed
    with ks t i node parts show ?thesis by (simp add: getPropertyValue_step)
  qed
qed

text \<open>
  C8, as stated, fails when a value reached before the last segment is falsy without
  being \<^verbatim>\<open>undefined\<close>. A member expression has \<^verbatim>\<open>computed: false\<close>; along the path
  \<^verbatim>\<open>computed.name\<close> the segment \<^verbatim>\<open>name\<close> is absent, so repeated lookup gives
  \<^verbatim>\<open>undefined\<close>, but \<^verbatim>\<open>getPropertyValue\<close> returns \<^verbatim>\<open>false\<close>.
\<close>

theorem getPropertyValue_falsy_counterexample:
  "isMemberExpression ember_heap (JRef 1) \<and>
   fst (getPropertyValue ember_heap (JRef 1) (PathString ''computed.name'')) = Inr (JBool False) \<and>
   lookup_path ember_heap (JRef 1) (path_parts (PathString ''computed.name'')) = Undefined"
  by (simp add: getPropertyValue.simps ember_heap_def heap_of_def get_prop_def nullish_def is_type_def)

text \<open>
  C8, amended. On a node and a path, a dotted string or an array of names:
  a single-segment path is a direct property read; when every value reached before the
  last segment is truthy, the result is the final value of the repeated lookup (which is
  \<^verbatim>\<open>undefined\<close> when the last segment is absent); and when a value reached before the
  last segment is falsy, the result is the first such value: \<^verbatim>\<open>undefined\<close> for an
  absent segment, but also \<^verbatim>\<open>null\<close>, \<^verbatim>\<open>false\<close>, \<^verbatim>\<open>0\<close> or \<^verbatim>\<open>''\<close> when the
  segment holds it.
\<close>

theorem getPropertyValue_resolves:
  assumes "\<not> nullish node" and "path_parts path = parts"
  shows "(length parts = 1 \<longrightarrow> fst (getPropertyValue h node path) = Inr (read h node (hd parts))) \<and>
    (parts \<noteq> [] \<and> (\<forall>i. 0 < i \<and> i < length parts \<longrightarrow> truthy (lookup_path h node (take i parts)))
       \<longrightarrow> fst (getPropertyValue h node path) = Inr (lookup_path h node parts)) \<and>
    (\<forall>i. 0 < i \<and> i < length parts \<and> \<not> truthy (lookup_path h node (take i parts)) \<and>
          (\<forall>j. 0 < j \<and> j < i \<longrightarrow> truthy (lookup_path h node (take j parts)))
       \<longrightarrow> fst (getPropertyValue h node path) = Inr (lookup_path h node (take i parts)))"
proof (intro conjI impI allI)
  assume "length parts = 1"
  then obtain k where "parts = [k]" by (cases parts) auto
  with assms show "fst (getPropertyValue h node path) = Inr (read h node (hd parts))"
    by (simp add: getPropertyValue_single get_prop_not_nullish)
next
  assume "parts \<noteq> [] \<and>
    (\<forall>i. 0 < i \<and> i < length parts \<longrightarrow> truthy (lookup_path h node (take i parts)))"
  with assms show "fst (getPropertyValue h node path) = Inr (lookup_path h node parts)"
    by (intro getPropertyValue_all_truthy) auto
next
  fix i
  assume "0 < i \<and> i < length parts \<and> \<not> truthy (lookup_path h node (take i parts)) \<and>
          (\<forall>j. 0 < j \<and> j < i \<longrightarrow> truthy (lookup_path h node (take j parts)))"
  with assms show "fst (getPropertyValue h node path) = Inr (lookup_path h node (take i parts))"
    by (intro getPropertyValue_first_falsy) auto
qed

text \<open>
  On \<^verbatim>\<open>Ember.computed.alias()\<close>: \<^verbatim>\<open>type\<close> of the call is read directly;
  \<^verbatim>\<open>callee.object.property.name\<close> passes through objects and reaches \<^verbatim>\<open>'computed'\<close>;
  \<^verbatim>\<open>computed.name\<close> on the callee stops at the first value, \<^verbatim>\<open>false\<close>.
\<close>

theorem getPropertyValue_resolves_witness:
  "\<not> nullish (JRef 0) \<and> \<not> nullish (JRef 1) \<and>
   fst (getPropertyValue ember_heap (JRef 0) (PathString ''type'')) = Inr (JStr ''CallExpression'') \<and>
   truthy (lookup_path ember_heap (JRef 0) (take 1 [''callee'', ''object'', ''property'', ''name''])) \<and>
   truthy (lookup_path ember_heap (JRef 0) (take 2 [''callee'', ''object'', ''property'', ''name''])) \<and>
   truthy (lookup_path ember_heap (JRef 0) (take 3 [''callee'', ''object'', ''property'', ''name''])) \<and>
   fst (getPropertyValue ember_heap (JRef 0) (PathArray [''callee'', ''object'', ''property'', ''name'']))
     = Inr (JStr ''computed'') \<and>
   \<not> truthy (lookup_path ember_heap (JRef 1) (take 1 [''computed'', ''name''])) \<and>
   fst (getPropertyValue ember_heap (JRef 1) (PathString ''computed.name'')) = Inr (JBool False)"
proof -
  let ?H = ember_heap
  let ?ps = "[''callee'', ''object'', ''property'', ''name'']"
  have nn: "\<not> nullish (JRef 0)" "\<not> nullish (JRef 1)" by (simp_all add: nullish_def)
  have single: "path_parts (PathString ''type'') = [''type'']" by simp
  have two: "path_parts (PathString ''computed.name'') = [''computed'', ''name'']" by simp
  have t123: "truthy (lookup_path ?H (JRef 0) (take 1 ?ps))"
    "truthy (lookup_path ?H (JRef 0) (take 2 ?ps))"
    "truthy (lookup_path ?H (JRef 0) (take 3 ?ps))"
    by (simp_all add: ember_heap_def heap_of_def)
  have t: "\<forall>i. 0 < i \<and> i < length ?ps \<longrightarrow> truthy (lookup_path ?H (JRef 0) (take i ?ps))"
  proof (intro allI impI)
    fix i :: nat assume "0 < i \<and> i < length ?ps"
    then have "i = 1 \<or> i = 2 \<or> i = 3" by auto
    with t123 show "truthy (lookup_path ?H (JRef 0) (take i ?ps))" by auto
  qed
  have f: "\<not> truthy (lookup_path ?H (JRef 1) (take 1 [''computed'', ''name'']))"
    by (simp add: ember_heap_def heap_of_def)
  from getPropertyValue_resolves[OF nn(1) single, of ?H]
  have a: "fst (getPropertyValue ?H (JRef 0) (PathString ''type'')) = Inr (JStr ''CallExpression'')"
    by (simp add: ember_heap_def heap_of_def)
  from getPropertyValue_resolves[OF nn(1), of "PathArray ?ps" ?ps ?H] t
  have b: "fst (getPropertyValue ?H (JRef 0) (PathArray ?ps)) = Inr (JStr ''computed'')"
    by (simp add: ember_heap_def heap_of_def)
  from f getPropertyValue_resolves[OF nn(2) two, of ?H, THEN conjunct2, THEN conjunct2,
         rule_format, of 1]
  have "fst (getPropertyValue ?H (JRef 1) (PathString ''computed.name''))
          = Inr (lookup_path ?H (JRef 1) (take 1 [''computed'', ''name'']))"
    by simp
  then have c: "fst (getPropertyValue ?H (JRef 1) (PathString ''computed.name'')) = Inr (JBool False)"
    by (simp add: ember_heap_def heap_of_def)
  from nn a b c t123 f show ?thesis by simp
qed


section \<open>Properties of collectObjectPatternBindings\<close>

text \<open>
  On a declarator that has its \<^verbatim>\<open>init\<close>, and whose pattern elements all have a
  \<^verbatim>\<open>key\<close> and a \<^verbatim>\<open>value\<close>, the function returns the empty array when \<^verbatim>\<open>id\<close> is
  not an object pattern and when the name of \<^verbatim>\<open>init\<close> is not a key of the binding
  map, and otherwise the names of the values of the properties whose key name is bound,
  in the order of the pattern.
\<close>

lemma collectObjectPatternBindings_on_complete_declarator:
  assumes "\<not> nullish node"
  shows
   "(\<not> isObjectPattern h (read h node ''id'') \<longrightarrow>
       collectObjectPatternBindings h node m = Inr []) \<and>
    (isObjectPattern h (read h node ''id'') \<and> \<not> nullish (read h node ''init'') \<and>
     (\<forall>binding. read h (read h node ''init'') ''name'' = JStr binding \<longrightarrow> m binding = None) \<longrightarrow>
       collectObjectPatternBindings h node m = Inr []) \<and>
    (isObjectPattern h (read h node ''id'') \<and>
     read h (read h node ''init'') ''name'' = JStr binding \<and> m binding = Some names \<and>
     read h (read h node ''id'') ''properties'' = JArr properties \<and>
     (\<forall>props \<in> set properties. has_key_and_value h props) \<longrightarrow>
       collectObjectPatternBindings h node m =
         Inr (map (\<lambda>props. read h (read h props ''value'') ''name'')
                (filter (\<lambda>props. read h (read h props ''key'') ''name'' \<in> set (map JStr names))
                   properties)))"
proof (intro conjI impI)
  assume "\<not> isObjectPattern h (read h node ''id'')"
  with assms show "collectObjectPatternBindings h node m = Inr []"
    by (simp add: collectObjectPatternBindings_def bindE_def get_prop_not_nullish)
next
  assume a: "isObjectPattern h (read h node ''id'') \<and> \<not> nullish (read h node ''init'') \<and>
     (\<forall>binding. read h (read h node ''init'') ''name'' = JStr binding \<longrightarrow> m binding = None)"
  with assms show "collectObjectPatternBindings h node m = Inr []"
    by (simp add: collectObjectPatternBindings_def bindE_def get_prop_not_nullish
         split: jsval.splits)
next
  assume a: "isObjectPattern h (read h node ''id'') \<and>
     read h (read h node ''init'') ''name'' = JStr binding \<and> m binding = Some names \<and>
     read h (read h node ''id'') ''properties'' = JArr properties \<and>
     (\<forall>props \<in> set properties. has_key_and_value h props)"
  let ?q = "\<lambda>props. read h (read h props ''key'') ''name'' \<in> set (map JStr names)"
  from a have i: "\<not> nullish (read h node ''init'')"
    by (auto simp: read_nullish)
  have f: "filterE (\<lambda>props.
                         bindE (get_prop h props ''key'') (\<lambda>key.
                         bindE (get_prop h key ''name'') (\<lambda>keyName.
                         Inr (keyName \<in> set (map JStr names))))) properties
           = Inr (filter ?q properties)"
    by (rule filterE_total)
       (use a in \<open>simp add: has_key_and_value_def bindE_def get_prop_not_nullish\<close>)
  have g: "mapE (\<lambda>props.
                        bindE (get_prop h props ''value'') (\<lambda>v. get_prop h v ''name''))
             (filter ?q properties)
           = Inr (map (\<lambda>props. read h (read h props ''value'') ''name'') (filter ?q properties))"
    by (rule mapE_total)
       (use a in \<open>simp add: has_key_and_value_def bindE_def get_prop_not_nullish\<close>)
  from assms a i f g show "collectObjectPatternBindings h node m =
         Inr (map (\<lambda>props. read h (read h props ''value'') ''name'') (filter ?q properties))"
    by (simp add: collectObjectPatternBindings_def bindE_def get_prop_not_nullish as_array_def)
qed

text \<open>\<^verbatim>\<open>const { $: foo } = Ember\<close> with \<^verbatim>\<open>{ Ember: ['$'] }\<close> gives \<^verbatim>\<open>['foo']\<close>.\<close>

lemma collectObjectPatternBindings_alias_example:
  "collectObjectPatternBindings destructuring_heap (JRef 0) [''Ember'' \<mapsto> [''$'']]
     = Inr [JStr ''foo'']"
  by (simp add: collectObjectPatternBindings_def bindE_def get_prop_def nullish_def as_array_def
      destructuring_heap_def heap_of_def is_type_def)

text \<open>
  The reads of \<^verbatim>\<open>node.init.name\<close>, \<^verbatim>\<open>props.key.name\<close> and \<^verbatim>\<open>props.value.name\<close>
  have no guard. Without an \<^verbatim>\<open>init\<close> the function throws, whatever the binding map.
\<close>

lemma collectObjectPatternBindings_throws_without_init:
  "\<not> nullish node \<Longrightarrow> isObjectPattern h (read h node ''id'') \<Longrightarrow>
   nullish (read h node ''init'') \<Longrightarrow>
   collectObjectPatternBindings h node m = Inl TypeError"
  by (simp add: collectObjectPatternBindings_def bindE_def get_prop_not_nullish get_prop_nullish)

text \<open>
  C6 fails on the code. For \<^verbatim>\<open>const { $, ...rest } = Ember\<close> and the binding map
  \<^verbatim>\<open>{ Ember: ['$'] }\<close> the declarator's \<^verbatim>\<open>id\<close> is an object pattern and the name of
  its \<^verbatim>\<open>init\<close> is a key of the map, so the claim gives the result \<^verbatim>\<open>['$']\<close>; the
  function throws a TypeError, because its filter reads \<^verbatim>\<open>props.key.name\<close> on the
  rest element, which has no \<^verbatim>\<open>key\<close>.
\<close>

theorem collectObjectPatternBindings_rest_element_failure:
  "isObjectPattern rest_heap (read rest_heap (JRef 0) ''id'') \<and>
   read rest_heap (read rest_heap (JRef 0) ''init'') ''name'' = JStr ''Ember'' \<and>
   read rest_heap (read rest_heap (JRef 0) ''id'') ''properties'' = JArr [JRef 3, JRef 6] \<and>
   read rest_heap (read rest_heap (JRef 3) ''key'') ''name'' = JStr ''$'' \<and>
   read rest_heap (read rest_heap (JRef 3) ''value'') ''name'' = JStr ''$'' \<and>
   read rest_heap (JRef 6) ''key'' = Undefined \<and>
   collectObjectPatternBindings rest_heap (JRef 0) [''Ember'' \<mapsto> [''$'']] = Inl TypeError"
  by (simp add: collectObjectPatternBindings_def bindE_def get_prop_def nullish_def as_array_def
      rest_heap_def heap_of_def is_type_def)

section \<open>Missing fields\<close>

text \<open>
  Some helpers test a field before they read further and give a falsy result when it
  is missing: \<^verbatim>\<open>isEmptyMethod\<close> tests \<^verbatim>\<open>node.value.body\<close>, and \<^verbatim>\<open>findNodes\<close>
  tests \<^verbatim>\<open>body\<close> before it filters.
\<close>

lemma isEmptyMethod_guards_body:
  "\<not> nullish node \<Longrightarrow> \<not> nullish (read h node ''value'') \<Longrightarrow>
   \<not> truthy (read h (read h node ''value'') ''body'') \<Longrightarrow>
   isEmptyMethod h node = Inr (read h (read h node ''value'') ''body'')"
  by (simp add: isEmptyMethod_def bindE_def get_prop_not_nullish)

lemma isEmptyMethod_without_body_example:
  "isEmptyMethod partial_heap (JRef 0) = Inr Undefined"
  by (simp add: isEmptyMethod_def bindE_def get_prop_def nullish_def partial_heap_def heap_of_def)

lemma findNodes_guards_body: "\<not> truthy body \<Longrightarrow> findNodes h body nodeName = Inr []"
  by (simp add: findNodes_def)

text \<open>
  Others do not: \<^verbatim>\<open>parseArgs\<close> calls \<^verbatim>\<open>node.arguments.filter\<close> on every call
  expression, and throws on one that has no \<^verbatim>\<open>arguments\<close>.
\<close>

lemma parseArgs_throws_without_arguments:
  "isCallExpression h node \<Longrightarrow> read h node ''arguments'' = Undefined \<Longrightarrow>
   parseArgs h node = Inl TypeError"
  by (simp add: parseArgs_def as_array_def bindE_def)

text \<open>
  C9 fails on the code, at its own example. The declarator of
  \<^verbatim>\<open>for (const { $ } of list)\<close> has an object pattern as \<^verbatim>\<open>id\<close> and \<^verbatim>\<open>null\<close> as
  \<^verbatim>\<open>init\<close>; the claim gives an empty result without a throw, and
  \<^verbatim>\<open>collectObjectPatternBindings\<close> throws a TypeError at \<^verbatim>\<open>node.init.name\<close>.
\<close>

theorem collectObjectPatternBindings_no_init_failure:
  "isObjectPattern for_of_heap (read for_of_heap (JRef 0) ''id'') \<and>
   read for_of_heap (JRef 0) ''init'' = Null \<and>
   collectObjectPatternBindings for_of_heap (JRef 0) [''Ember'' \<mapsto> [''$'']] = Inl TypeError"
  by (simp add: collectObjectPatternBindings_def bindE_def get_prop_def nullish_def
      for_of_heap_def heap_of_def is_type_def)

section \<open>Reads and writes of the module\<close>

text \<open>Actions built from reads leave the store.\<close>

lemma leaves_store_returnS: "leaves_store (returnS x)"
  by (simp add: leaves_store_def returnS_def)

lemma leaves_store_get_propS: "leaves_store (get_propS v k)"
  by (simp add: leaves_store_def get_propS_def)

lemma leaves_store_elementsS: "leaves_store (elementsS v)"
  by (simp add: leaves_store_def elementsS_def)

lemma leaves_store_bindS:
  "leaves_store m \<Longrightarrow> (\<And>x. leaves_store (f x)) \<Longrightarrow> leaves_store (bindS m f)"
  by (auto simp: leaves_store_def bindS_def split: prod.splits sum.splits)
     (metis snd_conv)+

lemma leaves_store_if:
  "(c \<Longrightarrow> leaves_store m) \<Longrightarrow> (\<not> c \<Longrightarrow> leaves_store n) \<Longrightarrow> leaves_store (if c then m else n)"
  by simp

lemma leaves_store_filterS: "(\<And>x. leaves_store (p x)) \<Longrightarrow> leaves_store (filterS p xs)"
  by (induction xs) (auto intro!: leaves_store_bindS leaves_store_returnS)

lemma leaves_store_mapS: "(\<And>x. leaves_store (f x)) \<Longrightarrow> leaves_store (mapS f xs)"
  by (induction xs) (auto intro!: leaves_store_bindS leaves_store_returnS)

lemma leaves_store_throwS: "leaves_store (throwS e)"
  by (simp add: leaves_store_def throwS_def)

lemma leaves_store_isS: "leaves_store (isS t v)"
  by (simp add: leaves_store_def isS_def)

lemma leaves_store_own_keysS: "leaves_store (own_keysS v)"
  by (simp add: leaves_store_def own_keysS_def)

lemma leaves_store_js_includes: "leaves_store (js_includes v x)"
proof -
  have "leaves_store (bindS (elementsS v) (\<lambda>xs. returnS (x \<in> set xs)))"
    by (intro leaves_store_bindS leaves_store_elementsS leaves_store_returnS)
  then show ?thesis
    by (cases v) (simp_all add: leaves_store_def js_includes_def)
qed

lemma leaves_store_array_filter:
  "(\<And>x. leaves_store (p x)) \<Longrightarrow> leaves_store (array_filter p v)"
  unfolding array_filter_def
  by (intro leaves_store_bindS leaves_store_elementsS leaves_store_returnS leaves_store_filterS)

lemma leaves_store_array_map:
  "(\<And>x. leaves_store (f x)) \<Longrightarrow> leaves_store (array_map f v)"
  unfolding array_map_def
  by (intro leaves_store_bindS leaves_store_elementsS leaves_store_returnS leaves_store_mapS)

lemmas leaves_store_intros =
  leaves_store_bindS leaves_store_returnS leaves_store_throwS leaves_store_get_propS
  leaves_store_elementsS leaves_store_isS leaves_store_own_keysS leaves_store_js_includes
  leaves_store_array_filter leaves_store_array_map

lemma leaves_store_reads_only: "leaves_store m \<Longrightarrow> reads_only m"
  by (simp add: leaves_store_def reads_only_def repeatable_at_def)

lemma reads_only_leaves_store: "reads_only m \<Longrightarrow> leaves_store m"
  by (simp add: leaves_store_def reads_only_def repeatable_at_def)

lemma reads_only_on_returnI:
  "(\<And>s r s'. m s = Some (r, s') \<Longrightarrow> s' = s) \<Longrightarrow> reads_only_on_return m"
  unfolding reads_only_on_return_def by blast

lemma leaves_store_findNodesS: "leaves_store (findNodesS body nodeName)"
  unfolding findNodesS_def by (auto intro!: leaves_store_intros)

lemma leaves_store_getSizeS: "leaves_store (getSizeS node)"
  unfolding getSizeS_def by (intro leaves_store_intros)

lemma leaves_store_parseArgsS: "leaves_store (parseArgsS node)"
  unfolding parseArgsS_def by (auto intro!: leaves_store_intros)

lemma leaves_store_isEmptyMethodS: "leaves_store (isEmptyMethodS node)"
  unfolding isEmptyMethodS_def by (auto intro!: leaves_store_intros)

lemma leaves_store_leftSidePredicateS: "leaves_store (leftSidePredicateS ancestor)"
  unfolding leftSidePredicateS_def by (auto intro!: leaves_store_intros)

lemma leaves_store_collectObjectPatternBindingsS:
  "leaves_store (collectObjectPatternBindingsS node initialObjToBinding)"
  unfolding collectObjectPatternBindingsS_def
  by (auto intro!: leaves_store_intros split: jsval.splits)

lemma array_push_fresh: "array_push (JArr xs) x s = (Inr (JArr (xs @ [x])), s)"
  by (simp add: array_push_def bindS_def elementsS_def set_elementsS_def)

lemma array_reverse_fresh: "array_reverse (JArr xs) s = (Inr (JArr (rev xs)), s)"
  by (simp add: array_reverse_def bindS_def elementsS_def set_elementsS_def)

lemma array_shift_fresh: "array_shift (JArr xs) s = (Inr (JArr (tl xs)), s)"
  by (simp add: array_shift_def bindS_def elementsS_def set_elementsS_def)

lemma array_shift_stored:
  "s a = ArrayCell xs \<Longrightarrow> array_shift (JRef a) s = (Inr (JRef a), s(a := ArrayCell (tl xs)))"
  by (simp add: array_shift_def bindS_def elementsS_def set_elementsS_def)

lemma array_shift_object:
  "s a = ObjectCell ob \<Longrightarrow> array_shift (JRef a) s = (Inl TypeError, s)"
  by (simp add: array_shift_def bindS_def elementsS_def)

lemma array_shift_other:
  "(\<forall>xs. v \<noteq> JArr xs) \<Longrightarrow> (\<forall>a. v \<noteq> JRef a) \<Longrightarrow> array_shift v s = (Inl TypeError, s)"
  by (cases v) (simp_all add: array_shift_def bindS_def elementsS_def)

lemma parseCallee_whileS_fresh:
  assumes "parseCallee_whileS callee (JArr xs) s = Some (r, s')"
  shows "s' = s \<and> (\<exists>c ys. r = Inr (c, JArr ys))"
proof -
  have "(\<exists>zs. JArr xs = JArr zs) \<longrightarrow> snd (r, s') = s \<and> (\<exists>c ys. fst (r, s') = Inr (c, JArr ys))"
  proof (rule parseCallee_whileS.raw_induct
      [where P = "\<lambda>callee parsedCallee s y. (\<exists>xs. parsedCallee = JArr xs) \<longrightarrow>
                     snd y = s \<and> (\<exists>c ys. fst y = Inr (c, JArr ys))", OF _ assms])
    fix loop :: "jsval \<Rightarrow> jsval \<Rightarrow> store \<Rightarrow> ((error + jsval \<times> jsval) \<times> store) option"
      and callee parsedCallee s y
    assume IH: "\<And>callee parsedCallee s y. loop callee parsedCallee s = Some y \<Longrightarrow>
        (\<exists>xs. parsedCallee = JArr xs) \<longrightarrow> snd y = s \<and> (\<exists>c ys. fst y = Inr (c, JArr ys))"
      and eq: "(if is_typeS ''MemberExpression'' s callee then
        (if is_typeS ''Identifier'' s (readS s callee ''property'') then
           (case array_push parsedCallee (readS s (readS s callee ''property'') ''name'') s of
              (Inl e, s') \<Rightarrow> Some (Inl e, s')
            | (Inr pushed, s') \<Rightarrow> loop (readS s' callee ''object'') pushed s')
         else loop (readS s callee ''object'') parsedCallee s)
      else Some (Inr (callee, parsedCallee), s)) = Some y"
    show "(\<exists>xs. parsedCallee = JArr xs) \<longrightarrow> snd y = s \<and> (\<exists>c ys. fst y = Inr (c, JArr ys))"
    proof
      assume "\<exists>xs. parsedCallee = JArr xs"
      then obtain xs where xs: "parsedCallee = JArr xs" ..
      show "snd y = s \<and> (\<exists>c ys. fst y = Inr (c, JArr ys))"
      proof (cases "is_typeS ''MemberExpression'' s callee")
        case False
        with eq xs show ?thesis by auto
      next
        case True
        show ?thesis
        proof (cases "is_typeS ''Identifier'' s (readS s callee ''property'')")
          case False
          with True eq have "loop (readS s callee ''object'') parsedCallee s = Some y" by simp
          from IH[OF this] xs show ?thesis by blast
        next
          case id: True
          with True eq xs
          have "loop (readS s callee ''object'')
                  (JArr (xs @ [readS s (readS s callee ''property'') ''name''])) s = Some y"
            by (simp add: array_push_fresh)
          from IH[OF this] show ?thesis by blast
        qed
      qed
    qed
  qed
  then show ?thesis by simp
qed

lemma parseCalleeS_leaves_store:
  assumes "parseCalleeS node s = Some (r, s')"
  shows "s' = s"
proof (cases "is_typeS ''CallExpression'' s node \<or> is_typeS ''NewExpression'' s node")
  case False
  with assms show ?thesis by (simp add: parseCalleeS_def array_reverse_fresh)
next
  case True
  with assms obtain w t where w: "parseCallee_whileS (readS s node ''callee'') (JArr []) s = Some (w, t)"
    by (auto simp: parseCalleeS_def split: option.splits)
  from parseCallee_whileS_fresh[OF w] obtain c ys where t: "t = s" and r: "w = Inr (c, JArr ys)"
    by blast
  from assms True w t r show ?thesis
    by (auto simp: parseCalleeS_def bindS_def array_push_fresh array_reverse_fresh split: if_splits)
qed

lemma getAncestorS_leaves_store:
  assumes p: "\<And>n. leaves_store (predicate n)"
    and "getAncestorS node predicate s = Some (r, s')"
  shows "s' = s"
proof -
  have "(\<forall>n. leaves_store (predicate n)) \<longrightarrow> snd (r, s') = s"
  proof (rule getAncestorS.raw_induct
      [where P = "\<lambda>node predicate s y. (\<forall>n. leaves_store (predicate n)) \<longrightarrow> snd y = s",
       OF _ assms(2)])
    fix walk :: "jsval \<Rightarrow> (jsval \<Rightarrow> jsval action) \<Rightarrow> store \<Rightarrow> ((error + jsval) \<times> store) option"
      and currentNode predicate s y
    assume IH: "\<And>node predicate s y. walk node predicate s = Some y \<Longrightarrow>
        (\<forall>n. leaves_store (predicate n)) \<longrightarrow> snd y = s"
      and eq: "(if truthy currentNode then
        (case predicate currentNode s of
           (Inl e, s') \<Rightarrow> Some (Inl e, s')
         | (Inr found, s') \<Rightarrow>
             if truthy found then Some (Inr currentNode, s')
             else walk (readS s' currentNode ''parent'') predicate s')
      else Some (Inr Null, s)) = Some y"
    show "(\<forall>n. leaves_store (predicate n)) \<longrightarrow> snd y = s"
    proof
      assume l: "\<forall>n. leaves_store (predicate n)"
      then have k: "snd (predicate currentNode s) = s" by (simp add: leaves_store_def)
      show "snd y = s"
      proof (cases "truthy currentNode")
        case False
        with eq show ?thesis by auto
      next
        case True
        obtain res t where pr: "predicate currentNode s = (res, t)" by (cases "predicate currentNode s")
        with k have t: "t = s" by simp
        show ?thesis
        proof (cases res)
          case (Inl e)
          with True eq pr t show ?thesis by auto
        next
          case (Inr found)
          show ?thesis
          proof (cases "truthy found")
            case f: True
            with True eq pr t Inr show ?thesis by auto
          next
            case f: False
            with True eq pr t Inr
            have "walk (readS s currentNode ''parent'') predicate s = Some y" by simp
            from IH[OF this] l show ?thesis by blast
          qed
        qed
      qed
    qed
  qed
  with p show ?thesis by simp
qed

lemma getNameS_leaves_store:
  assumes "getNameS node s = Some (r, s')"
  shows "s' = s"
proof -
  have "snd (r, s') = s"
  proof (rule getNameS.raw_induct[where P = "\<lambda>node s y. snd y = s", OF _ assms])
    fix name :: "jsval \<Rightarrow> store \<Rightarrow> (jsval \<times> store) option" and node s y
    assume IH: "\<And>node s y. name node s = Some y \<Longrightarrow> snd y = s"
      and eq: "(if is_typeS ''Identifier'' s node then Some (readS s node ''name'', s)
      else if is_typeS ''CallExpression'' s node \<or> is_typeS ''OptionalCallExpression'' s node then
        name (readS s node ''callee'') s
      else if is_typeS ''MemberExpression'' s node \<or> is_typeS ''OptionalMemberExpression'' s node then
        Option.bind (name (readS s node ''object'') s) (\<lambda>(objectName, s1).
        Option.bind (name (readS s1 node ''property'') s1) (\<lambda>(propertyName, s2).
        Some (JStr (to_stringS s2 objectName @ ''.'' @ to_stringS s2 propertyName), s2)))
      else Some (Undefined, s)) = Some y"
    show "snd y = s"
    proof (cases "is_typeS ''Identifier'' s node")
      case True
      with eq show ?thesis by auto
    next
      case notId: False
      show ?thesis
      proof (cases "is_typeS ''CallExpression'' s node \<or> is_typeS ''OptionalCallExpression'' s node")
        case True
        with notId eq have "name (readS s node ''callee'') s = Some y" by simp
        then show ?thesis by (rule IH)
      next
        case notCall: False
        show ?thesis
        proof (cases "is_typeS ''MemberExpression'' s node \<or> is_typeS ''OptionalMemberExpression'' s node")
          case False
          with notId notCall eq show ?thesis by auto
        next
          case True
          with notId notCall eq obtain objectName s1 propertyName s2
            where o: "name (readS s node ''object'') s = Some (objectName, s1)"
              and q: "name (readS s1 node ''property'') s1 = Some (propertyName, s2)"
              and y: "y = (JStr (to_stringS s2 objectName @ ''.'' @ to_stringS s2 propertyName), s2)"
            by (auto simp: bind_eq_Some_conv)
          from IH[OF o] have "s1 = s" by simp
          moreover from IH[OF q] have "s2 = s1" by simp
          ultimately show ?thesis using y by simp
        qed
      qed
    qed
  qed
  then show ?thesis by simp
qed

lemma isInLeftSideOfAssignmentExpressionS_leaves_store:
  assumes "isInLeftSideOfAssignmentExpressionS node s = Some (r, s')"
  shows "s' = s"
proof -
  from assms obtain w where "getAncestorS node leftSidePredicateS s = Some (w, s')"
    by (auto simp: isInLeftSideOfAssignmentExpressionS_def split: option.splits sum.splits)
  with leaves_store_leftSidePredicateS show ?thesis by (rule getAncestorS_leaves_store)
qed

lemma findUnorderedProperty_forS_leaves_store: "snd (findUnorderedProperty_forS arr i s) = s"
proof (induction arr i s rule: findUnorderedProperty_forS.induct)
  case (1 arr i s)
  let ?inner = "bindS (get_propS arr (index_key i)) (\<lambda>x.
                  bindS (get_propS x ''order'') (\<lambda>a.
                  bindS (get_propS arr (index_key (i + 1))) (\<lambda>y.
                  bindS (get_propS y ''order'') (\<lambda>b.
                  returnS (js_gt a b)))))"
  have inner: "leaves_store ?inner" by (intro leaves_store_intros)
  then have k: "snd (?inner s) = s" by (simp add: leaves_store_def)
  show ?case
  proof (cases "nullish arr")
    case True
    then show ?thesis
      by (subst findUnorderedProperty_forS.simps) (simp add: get_propS_def)
  next
    case False
    then have g: "get_propS arr ''length'' s = (Inr (readS s arr ''length''), s)"
      by (simp add: get_propS_def)
    show ?thesis
    proof (cases "below_last i (readS s arr ''length'')")
      case b: False
      with g show ?thesis by (subst findUnorderedProperty_forS.simps) simp
    next
      case b: True
      obtain res t where i: "?inner s = (res, t)" by (cases "?inner s")
      with k have t: "t = s" by simp
      show ?thesis
      proof (cases res)
        case (Inl e)
        with g b i t show ?thesis by (subst findUnorderedProperty_forS.simps) simp
      next
        case (Inr unordered)
        show ?thesis
        proof (cases unordered)
          case True
          with g b i t Inr show ?thesis
            by (subst findUnorderedProperty_forS.simps) (simp add: get_propS_def)
        next
          case False
          have "snd (findUnorderedProperty_forS arr (i + 1) s) = s"
            by (rule "1.IH"[of "Inr (readS s arr ''length'')" s "readS s arr ''length''"
                  res s unordered])
               (use g b i t Inr False in simp_all)
          with g b i t Inr False show ?thesis
            by (subst findUnorderedProperty_forS.simps) simp
        qed
      qed
    qed
  qed
qed

lemma index_of_key_zero: "index_of_key ''0'' = Some 0"
  by (simp add: index_of_key_def digit_of_def)

lemma readS_stored_array:
  "s a = ArrayCell ps \<Longrightarrow> readS s (JRef a) ''length'' = JNum (int (length ps))"
  "s a = ArrayCell ps \<Longrightarrow> readS s (JRef a) ''0'' = (if ps = [] then Undefined else hd ps)"
  by (cases ps; simp add: index_of_key_zero)+

lemma readS_fresh_array:
  "readS s (JArr xs) ''length'' = JNum (int (length xs))"
  "readS s (JArr xs) ''0'' = (if xs = [] then Undefined else hd xs)"
  by (cases xs; simp add: index_of_key_zero)+


lemma js_gt_length: "js_gt (JNum x) (JNum y) = (y < x)"
  by (simp add: js_gt_def)

lemmas getPropertyValueS_reads =
  index_of_key_zero readS_stored_array readS_fresh_array js_gt_length fun_upd_idem

text \<open>One step of the function on a path that is not a string.\<close>

lemma getPropertyValueS_step:
  assumes "\<forall>t. path \<noteq> JStr t" and "\<not> nullish path"
  shows "getPropertyValueS node path s =
     (if readS s path ''length'' = JNum 1 then get_propS node (to_stringS s path) s
      else if nullish node then (Inl TypeError, s)
      else if truthy (readS s node (to_stringS s (readS s path ''0''))) \<and>
              js_gt (readS s path ''length'') (JNum 1)
      then (case array_shift path s of
              (Inl e, s3) \<Rightarrow> (Inl e, s3)
            | (Inr shifted, s3) \<Rightarrow>
                getPropertyValueS (readS s node (to_stringS s (readS s path ''0''))) shifted s3)
      else (Inr (readS s node (to_stringS s (readS s path ''0''))), s))"
proof -
  have parts: "(case path of JStr t \<Rightarrow> JArr (map JStr (split_dot t)) | _ \<Rightarrow> path) = path"
    using assms(1) by (cases path) auto
  have len: "get_propS path ''length'' s = (Inr (readS s path ''length''), s)"
    using assms(2) by (simp add: get_propS_def)
  show ?thesis
    by (subst getPropertyValueS.simps)
       (simp only: parts Let_def len prod.case sum.case, simp add: get_propS_def)
qed

lemma getPropertyValueS_fresh_array: "snd (getPropertyValueS node (JArr xs) s) = s"
proof (induction xs arbitrary: node)
  case Nil
  then show ?case
    by (simp add: getPropertyValueS_step nullish_def getPropertyValueS_reads get_propS_def)
next
  case (Cons x xs)
  show ?case
    using Cons.IH
    by (simp add: getPropertyValueS_step nullish_def getPropertyValueS_reads get_propS_def
        array_shift_fresh)
qed

lemma getPropertyValueS_string: "snd (getPropertyValueS node (JStr t) s) = s"
  by (subst getPropertyValueS.simps)
     (simp add: Let_def get_propS_def nullish_def getPropertyValueS_reads array_shift_fresh
        getPropertyValueS_fresh_array)

lemma getPropertyValueS_not_stored:
  assumes "\<forall>a. path \<noteq> JRef a"
  shows "snd (getPropertyValueS node path s) = s"
proof (cases path)
  case (JStr t)
  then show ?thesis by (simp add: getPropertyValueS_string)
next
  case (JArr xs)
  then show ?thesis by (simp add: getPropertyValueS_fresh_array)
next
  case (JRef a)
  with assms show ?thesis by simp
qed (subst getPropertyValueS.simps; simp add: get_propS_def nullish_def js_gt_def)+

lemma getPropertyValueS_stored_object:
  assumes "s a = ObjectCell ob"
  shows "snd (getPropertyValueS node (JRef a) s) = s"
  using assms
  by (simp add: getPropertyValueS_step nullish_def get_propS_def array_shift_object)

lemma getPropertyValueS_stored_array:
  "s a = ArrayCell ps \<Longrightarrow>
   \<exists>n. snd (getPropertyValueS node (JRef a) s) = s(a := ArrayCell (drop n ps))"
proof (induction ps arbitrary: node s)
  case Nil
  then have "snd (getPropertyValueS node (JRef a) s) = s(a := ArrayCell (drop 0 []))"
    by (simp add: getPropertyValueS_step nullish_def getPropertyValueS_reads get_propS_def)
  then show ?case ..
next
  case (Cons p ps)
  let ?property = "readS s node (to_stringS s p)"
  let ?s3 = "s(a := ArrayCell ps)"
  show ?case
  proof (cases "ps \<noteq> [] \<and> \<not> nullish node \<and> truthy ?property")
    case False
    with Cons.prems
    have "snd (getPropertyValueS node (JRef a) s) = s(a := ArrayCell (drop 0 (p # ps)))"
      by (auto simp: getPropertyValueS_step nullish_def getPropertyValueS_reads
          get_propS_def)
    then show ?thesis ..
  next
    case True
    have "?s3 a = ArrayCell ps" by simp
    have "\<exists>n. snd (getPropertyValueS ?property (JRef a) ?s3) = ?s3(a := ArrayCell (drop n ps))"
      by (rule Cons.IH) simp
    then obtain n
      where n: "snd (getPropertyValueS ?property (JRef a) ?s3) = ?s3(a := ArrayCell (drop n ps))" ..
    from True Cons.prems n
    have "snd (getPropertyValueS node (JRef a) s) = s(a := ArrayCell (drop (Suc n) (p # ps)))"
      by (cases ps)
         (simp_all add: getPropertyValueS_step nullish_def getPropertyValueS_reads
            array_shift_stored)
    then show ?thesis ..
  qed
qed

lemma getPropertyValueS_stored_array_kept:
  assumes "s a = ArrayCell ps"
    and "length ps \<le> 1 \<or> \<not> truthy (readS s node (to_stringS s (readS s (JRef a) ''0'')))"
  shows "snd (getPropertyValueS node (JRef a) s) = s"
  using assms
  by (cases ps)
     (auto simp: getPropertyValueS_step nullish_def getPropertyValueS_reads get_propS_def)

lemma getPropertyValueS_stored_array_shifted:
  assumes "s a = ArrayCell ps" and "2 \<le> length ps"
    and "truthy (readS s node (to_stringS s (readS s (JRef a) ''0'')))"
  shows "\<exists>n. snd (getPropertyValueS node (JRef a) s) = s(a := ArrayCell (drop (Suc n) ps))"
proof -
  from assms(2) obtain p ps' where ps: "ps = p # ps'" "ps' \<noteq> []"
    by (cases ps; cases "tl ps") auto
  let ?property = "readS s node (to_stringS s p)"
  let ?s3 = "s(a := ArrayCell ps')"
  from assms(1,3) ps have t: "truthy ?property" by (simp add: getPropertyValueS_reads)
  have nn: "\<not> nullish node"
  proof
    assume "nullish node"
    then have "?property = Undefined" by (auto simp: nullish_def)
    with t show False by simp
  qed
  have "?s3 a = ArrayCell ps'" by simp
  have "\<exists>n. snd (getPropertyValueS ?property (JRef a) ?s3) = ?s3(a := ArrayCell (drop n ps'))"
    by (rule getPropertyValueS_stored_array) simp
  then obtain n
    where n: "snd (getPropertyValueS ?property (JRef a) ?s3) = ?s3(a := ArrayCell (drop n ps'))" ..
  from assms(1) ps t nn n
  have "snd (getPropertyValueS node (JRef a) s) = s(a := ArrayCell (drop (Suc n) ps))"
    by (cases ps')
       (simp_all add: getPropertyValueS_step nullish_def getPropertyValueS_reads
          array_shift_stored)
  then show ?thesis ..
qed

lemma findUnorderedPropertyS_leaves_store: "leaves_store (findUnorderedPropertyS arr)"
  by (simp add: leaves_store_def findUnorderedPropertyS_def findUnorderedProperty_forS_leaves_store)

text \<open>The cells of the example store.\<close>

lemma ember_store_cells:
  "ember_store 0 = ObjectCell [''type'' \<mapsto> JStr ''CallExpression'', ''callee'' \<mapsto> JRef 1,
                               ''arguments'' \<mapsto> JRef 6]"
  "ember_store 1 = ObjectCell [''type'' \<mapsto> JStr ''MemberExpression'', ''object'' \<mapsto> JRef 2,
                               ''property'' \<mapsto> JRef 3, ''computed'' \<mapsto> JBool False]"
  "ember_store (Suc 0) = ObjectCell [''type'' \<mapsto> JStr ''MemberExpression'', ''object'' \<mapsto> JRef 2,
                               ''property'' \<mapsto> JRef 3, ''computed'' \<mapsto> JBool False]"
  "ember_store 2 = ObjectCell [''type'' \<mapsto> JStr ''MemberExpression'', ''object'' \<mapsto> JRef 4,
                               ''property'' \<mapsto> JRef 5, ''computed'' \<mapsto> JBool False]"
  "ember_store 3 = ObjectCell [''type'' \<mapsto> JStr ''Identifier'', ''name'' \<mapsto> JStr ''alias'']"
  "ember_store 4 = ObjectCell [''type'' \<mapsto> JStr ''Identifier'', ''name'' \<mapsto> JStr ''Ember'']"
  "ember_store 5 = ObjectCell [''type'' \<mapsto> JStr ''Identifier'', ''name'' \<mapsto> JStr ''computed'']"
  "ember_store 6 = ArrayCell [JRef 7, JRef 8]"
  "ember_store 7 = ObjectCell [''type'' \<mapsto> JStr ''Literal'', ''value'' \<mapsto> JStr ''x'']"
  "ember_store 8 = ObjectCell [''type'' \<mapsto> JStr ''Literal'', ''value'' \<mapsto> JNum 0]"
  "ember_store 10 = ArrayCell [JStr ''callee'', JStr ''type'']"
  "ember_store 20 = ObjectCell [''type'' \<mapsto> JStr ''AssignmentExpression'', ''left'' \<mapsto> JRef 21,
                                ''right'' \<mapsto> JRef 24]"
  "ember_store 21 = ObjectCell [''type'' \<mapsto> JStr ''MemberExpression'', ''object'' \<mapsto> JRef 22,
                                ''property'' \<mapsto> JRef 23, ''parent'' \<mapsto> JRef 20]"
  "ember_store 23 = ObjectCell [''type'' \<mapsto> JStr ''Identifier'', ''name'' \<mapsto> JStr ''x'',
                                ''parent'' \<mapsto> JRef 21]"
  "ember_store 30 = ObjectCell [''type'' \<mapsto> JStr ''VariableDeclarator'', ''id'' \<mapsto> JRef 31,
                                ''init'' \<mapsto> JRef 32]"
  "ember_store 31 = ObjectCell [''type'' \<mapsto> JStr ''ObjectPattern'', ''properties'' \<mapsto> JRef 33]"
  "ember_store 32 = ObjectCell [''type'' \<mapsto> JStr ''Identifier'', ''name'' \<mapsto> JStr ''Ember'']"
  "ember_store 33 = ArrayCell [JRef 34]"
  "ember_store 34 = ObjectCell [''type'' \<mapsto> JStr ''Property'', ''key'' \<mapsto> JRef 35,
                                ''value'' \<mapsto> JRef 36]"
  "ember_store 35 = ObjectCell [''type'' \<mapsto> JStr ''Identifier'', ''name'' \<mapsto> JStr ''$'']"
  "ember_store 36 = ObjectCell [''type'' \<mapsto> JStr ''Identifier'', ''name'' \<mapsto> JStr ''foo'']"
  "ember_store 37 = ObjectCell [''Ember'' \<mapsto> JRef 38]"
  "ember_store 38 = ArrayCell [JStr ''$'']"
  "ember_store 40 = ArrayCell [JRef 41, JRef 42, JRef 43]"
  "ember_store 41 = ObjectCell [''order'' \<mapsto> JNum 1]"
  "ember_store 42 = ObjectCell [''order'' \<mapsto> JNum 3]"
  "ember_store 43 = ObjectCell [''order'' \<mapsto> JNum 2]"
  "ember_store 50 = ObjectCell [''type'' \<mapsto> JStr ''Property'', ''value'' \<mapsto> JRef 51,
                                ''loc'' \<mapsto> JRef 54]"
  "ember_store 51 = ObjectCell [''type'' \<mapsto> JStr ''FunctionExpression'', ''body'' \<mapsto> JRef 52]"
  "ember_store 52 = ObjectCell [''type'' \<mapsto> JStr ''BlockStatement'', ''body'' \<mapsto> JRef 53]"
  "ember_store 53 = ArrayCell []"
  "ember_store 54 = ObjectCell [''start'' \<mapsto> JRef 55, ''end'' \<mapsto> JRef 56]"
  "ember_store 55 = ObjectCell [''line'' \<mapsto> JNum 3]"
  "ember_store 56 = ObjectCell [''line'' \<mapsto> JNum 5]"
  by (simp_all add: ember_store_def store_of_def)

text \<open>From the store that a call leaves to the whole of what it returns.\<close>

lemma reads_only_result: "reads_only m \<Longrightarrow> fst (m s) = r \<Longrightarrow> m s = (r, s)"
  unfolding reads_only_def repeatable_at_def by (metis prod.collapse)

lemma repeatable_at_result: "repeatable_at m s \<Longrightarrow> fst (m s) = r \<Longrightarrow> m s = (r, s)"
  unfolding repeatable_at_def by (metis prod.collapse)

lemma reads_only_on_return_result:
  "reads_only_on_return m \<Longrightarrow> map_option fst (m s) = Some r \<Longrightarrow> m s = Some (r, s)"
  unfolding reads_only_on_return_def by (cases "m s") auto

lemmas store_actions =
  bindS_def returnS_def get_propS_def nullish_def isS_def is_typeS_def elementsS_def
  array_filter_def array_map_def js_includes_def to_stringS_def js_gt_def

text \<open>
  C10, as stated, fails for \<^verbatim>\<open>getPropertyValue\<close> with a path array that the caller
  holds: \<^verbatim>\<open>parts\<close> is that array and \<^verbatim>\<open>parts.shift()\<close> writes to it. With the array
  \<^verbatim>\<open>['callee', 'type']\<close> at address 10, the first call on \<^verbatim>\<open>Ember.computed.alias('x', 0)\<close>
  returns the type of the callee and leaves \<^verbatim>\<open>['type']\<close> at address 10; the second
  call, with the same node and the same array, returns the type of the call.
\<close>

theorem getPropertyValueS_shift_counterexample:
  "ember_store 10 = ArrayCell [JStr ''callee'', JStr ''type''] \<and>
   getPropertyValueS (JRef 0) (JRef 10) ember_store
     = (Inr (JStr ''MemberExpression''), ember_store(10 := ArrayCell [JStr ''type''])) \<and>
   getPropertyValueS (JRef 0) (JRef 10)
       (snd (getPropertyValueS (JRef 0) (JRef 10) ember_store))
     = (Inr (JStr ''CallExpression''), ember_store(10 := ArrayCell [JStr ''type'']))"
proof -
  have first: "getPropertyValueS (JRef 0) (JRef 10) ember_store
     = (Inr (JStr ''MemberExpression''), ember_store(10 := ArrayCell [JStr ''type'']))"
    by (simp add: getPropertyValueS.simps Let_def ember_store_cells get_propS_def nullish_def
        to_stringS_def js_gt_def array_shift_def bindS_def elementsS_def set_elementsS_def
        index_of_key_zero)
  have second: "getPropertyValueS (JRef 0) (JRef 10) (ember_store(10 := ArrayCell [JStr ''type'']))
     = (Inr (JStr ''CallExpression''), ember_store(10 := ArrayCell [JStr ''type'']))"
    by (simp add: getPropertyValueS.simps Let_def ember_store_cells get_propS_def nullish_def
        to_stringS_def js_gt_def index_of_key_zero)
  from first second show ?thesis by (simp add: ember_store_cells)
qed

text \<open>
  C10, amended. Every exported function leaves the store as it found it, the tree and
  the arrays given as arguments alike, and called again on the same inputs gives the
  same result, with one exception. For \<^verbatim>\<open>parseCallee\<close>, \<^verbatim>\<open>getName\<close>,
  \<^verbatim>\<open>getAncestor\<close> and \<^verbatim>\<open>isInLeftSideOfAssignmentExpression\<close>, which loop over the
  tree, this is said of every call that returns; for \<^verbatim>\<open>getAncestor\<close> it is said
  when the caller's predicate is itself a pure read. The exception is
  \<^verbatim>\<open>getPropertyValue\<close>. It is a pure read when the path is a string or any value
  that is not held in the store, when the path is an object of the store, and when the
  path is an array of the store with at most one name or with a first name that
  resolves to a falsy value on the node. When the path is an array of the store with
  two names or more whose first name resolves to a truthy value, the call removes names
  from the front of that array, one at least, writes nothing else, and is not
  repeatable.
\<close>

theorem exported_functions_read_only:
  "reads_only (collectObjectPatternBindingsS node initialObjToBinding) \<and>
   reads_only (findNodesS body nodeName) \<and>
   reads_only (findUnorderedPropertyS arr) \<and>
   ((\<forall>n. reads_only (predicate n)) \<longrightarrow> reads_only_on_return (getAncestorS node predicate)) \<and>
   reads_only_on_return (getNameS node) \<and>
   reads_only (getSizeS node) \<and>
   reads_only (isEmptyMethodS node) \<and>
   reads_only_on_return (isInLeftSideOfAssignmentExpressionS node) \<and>
   reads_only (parseArgsS node) \<and>
   reads_only_on_return (parseCalleeS node) \<and>
   ((\<forall>a. path \<noteq> JRef a) \<longrightarrow> reads_only (getPropertyValueS node path)) \<and>
   (s a = ObjectCell ob \<longrightarrow> repeatable_at (getPropertyValueS node (JRef a)) s) \<and>
   (s a = ArrayCell ps \<and> (length ps \<le> 1 \<or> \<not> truthy (readS s node (to_stringS s (hd ps))))
      \<longrightarrow> repeatable_at (getPropertyValueS node (JRef a)) s) \<and>
   (s a = ArrayCell ps \<and> 2 \<le> length ps \<and> truthy (readS s node (to_stringS s (hd ps)))
      \<longrightarrow> (\<exists>n. snd (getPropertyValueS node (JRef a) s) = s(a := ArrayCell (drop (Suc n) ps))) \<and>
          \<not> repeatable_at (getPropertyValueS node (JRef a)) s)"
proof (intro conjI impI)
  show "reads_only (collectObjectPatternBindingsS node initialObjToBinding)"
    by (rule leaves_store_reads_only) (rule leaves_store_collectObjectPatternBindingsS)
  show "reads_only (findNodesS body nodeName)"
    by (rule leaves_store_reads_only) (rule leaves_store_findNodesS)
  show "reads_only (findUnorderedPropertyS arr)"
    by (rule leaves_store_reads_only) (rule findUnorderedPropertyS_leaves_store)
  show "reads_only_on_return (getNameS node)"
    by (rule reads_only_on_returnI) (rule getNameS_leaves_store)
  show "reads_only (getSizeS node)"
    by (rule leaves_store_reads_only) (rule leaves_store_getSizeS)
  show "reads_only (isEmptyMethodS node)"
    by (rule leaves_store_reads_only) (rule leaves_store_isEmptyMethodS)
  show "reads_only_on_return (isInLeftSideOfAssignmentExpressionS node)"
    by (rule reads_only_on_returnI) (rule isInLeftSideOfAssignmentExpressionS_leaves_store)
  show "reads_only (parseArgsS node)"
    by (rule leaves_store_reads_only) (rule leaves_store_parseArgsS)
  show "reads_only_on_return (parseCalleeS node)"
    by (rule reads_only_on_returnI) (rule parseCalleeS_leaves_store)
next
  assume "\<forall>n. reads_only (predicate n)"
  then have p: "\<And>n. leaves_store (predicate n)" by (simp add: reads_only_leaves_store)
  show "reads_only_on_return (getAncestorS node predicate)"
  proof (rule reads_only_on_returnI)
    fix s r s'
    assume "getAncestorS node predicate s = Some (r, s')"
    with p show "s' = s" by (rule getAncestorS_leaves_store)
  qed
next
  assume "\<forall>a. path \<noteq> JRef a"
  then show "reads_only (getPropertyValueS node path)"
    by (simp add: reads_only_def repeatable_at_def getPropertyValueS_not_stored)
next
  assume "s a = ObjectCell ob"
  then show "repeatable_at (getPropertyValueS node (JRef a)) s"
    by (simp add: repeatable_at_def getPropertyValueS_stored_object)
next
  assume a: "s a = ArrayCell ps \<and>
    (length ps \<le> 1 \<or> \<not> truthy (readS s node (to_stringS s (hd ps))))"
  then have "length ps \<le> 1 \<or> \<not> truthy (readS s node (to_stringS s (readS s (JRef a) ''0'')))"
    by (cases ps) (auto simp: index_of_key_zero)
  with a have "snd (getPropertyValueS node (JRef a) s) = s"
    by (simp add: getPropertyValueS_stored_array_kept)
  then show "repeatable_at (getPropertyValueS node (JRef a)) s"
    by (simp add: repeatable_at_def)
next
  assume a: "s a = ArrayCell ps \<and> 2 \<le> length ps \<and> truthy (readS s node (to_stringS s (hd ps)))"
  then have "truthy (readS s node (to_stringS s (readS s (JRef a) ''0'')))"
    by (cases ps) (auto simp: index_of_key_zero)
  with a have "\<exists>n. snd (getPropertyValueS node (JRef a) s) = s(a := ArrayCell (drop (Suc n) ps))"
    by (simp add: getPropertyValueS_stored_array_shifted)
  then obtain n
    where n: "snd (getPropertyValueS node (JRef a) s) = s(a := ArrayCell (drop (Suc n) ps))" ..
  then show "\<exists>n. snd (getPropertyValueS node (JRef a) s) = s(a := ArrayCell (drop (Suc n) ps))" ..
  from a have "2 \<le> length ps" by simp
  then have "length (drop (Suc n) ps) \<noteq> length ps" by simp
  then have "drop (Suc n) ps \<noteq> ps" by (rule contrapos_nn) simp
  then have "ArrayCell (drop (Suc n) ps) \<noteq> s a" using a by simp
  then have "s(a := ArrayCell (drop (Suc n) ps)) \<noteq> s" by (metis fun_upd_same)
  with n show "\<not> repeatable_at (getPropertyValueS node (JRef a)) s"
    by (simp add: repeatable_at_def)
qed

text \<open>
  On the example store each function returns and leaves the store: the eleven functions
  on the nodes they are written for, \<^verbatim>\<open>getPropertyValue\<close> with the string
  \<^verbatim>\<open>'callee.type'\<close>, with an object as path and with the one-name array \<^verbatim>\<open>['$']\<close>
  of the store. With the array \<^verbatim>\<open>['callee', 'type']\<close> of the store, whose first name
  resolves to the callee, the array loses at least its first name.
\<close>

theorem exported_functions_read_only_witness:
  "collectObjectPatternBindingsS (JRef 30) (JRef 37) ember_store
     = (Inr (JArr [JStr ''foo'']), ember_store) \<and>
   findNodesS (JRef 6) ''Literal'' ember_store = (Inr (JArr [JRef 7, JRef 8]), ember_store) \<and>
   findUnorderedPropertyS (JRef 40) ember_store = (Inr (JRef 42), ember_store) \<and>
   getAncestorS (JRef 23) leftSidePredicateS ember_store = Some (Inr (JRef 21), ember_store) \<and>
   getNameS (JRef 0) ember_store = Some (JStr ''Ember.computed.alias'', ember_store) \<and>
   getSizeS (JRef 50) ember_store = (Inr (Some 3), ember_store) \<and>
   isEmptyMethodS (JRef 50) ember_store = (Inr (JBool True), ember_store) \<and>
   isInLeftSideOfAssignmentExpressionS (JRef 23) ember_store = Some (Inr True, ember_store) \<and>
   parseArgsS (JRef 0) ember_store = (Inr (JArr [JStr ''x'']), ember_store) \<and>
   parseCalleeS (JRef 0) ember_store
     = Some (Inr (JArr [JStr ''Ember'', JStr ''computed'', JStr ''alias'']), ember_store) \<and>
   getPropertyValueS (JRef 0) (JStr ''callee.type'') ember_store
     = (Inr (JStr ''MemberExpression''), ember_store) \<and>
   getPropertyValueS (JRef 0) (JRef 3) ember_store = (Inr Undefined, ember_store) \<and>
   getPropertyValueS (JRef 0) (JRef 38) ember_store = (Inr Undefined, ember_store) \<and>
   (\<exists>n. snd (getPropertyValueS (JRef 0) (JRef 10) ember_store)
          = ember_store(10 := ArrayCell (drop (Suc n) [JStr ''callee'', JStr ''type''])))"
proof -
  note call = exported_functions_read_only
    [where node = "JRef 0" and body = "JRef 6" and nodeName = "''Literal''" and arr = "JRef 40"
       and initialObjToBinding = "JRef 37" and predicate = leftSidePredicateS
       and path = "JStr ''callee.type''" and s = ember_store and a = 10
       and ps = "[JStr ''callee'', JStr ''type'']" and ob = Map.empty]
  note declarator = exported_functions_read_only
    [where node = "JRef 30" and body = "JRef 6" and nodeName = "''Literal''" and arr = "JRef 40"
       and initialObjToBinding = "JRef 37" and predicate = leftSidePredicateS
       and path = "JStr ''callee.type''" and s = ember_store and a = 38
       and ps = "[JStr ''$'']" and ob = Map.empty]
  note left = exported_functions_read_only
    [where node = "JRef 23" and body = "JRef 6" and nodeName = "''Literal''" and arr = "JRef 40"
       and initialObjToBinding = "JRef 37" and predicate = leftSidePredicateS
       and path = "JStr ''callee.type''" and s = ember_store and a = 38
       and ps = "[JStr ''$'']" and ob = Map.empty]
  note of_method = exported_functions_read_only
    [where node = "JRef 50" and body = "JRef 6" and nodeName = "''Literal''" and arr = "JRef 40"
       and initialObjToBinding = "JRef 37" and predicate = leftSidePredicateS
       and path = "JStr ''callee.type''" and s = ember_store and a = 38
       and ps = "[JStr ''$'']" and ob = Map.empty]
  note object_path = exported_functions_read_only
    [where node = "JRef 0" and body = "JRef 6" and nodeName = "''Literal''" and arr = "JRef 40"
       and initialObjToBinding = "JRef 37" and predicate = leftSidePredicateS
       and path = "JStr ''callee.type''" and s = ember_store and a = 3
       and ps = "[JStr ''$'']"
       and ob = "[''type'' \<mapsto> JStr ''Identifier'', ''name'' \<mapsto> JStr ''alias'']"]
  note single = exported_functions_read_only
    [where node = "JRef 0" and body = "JRef 6" and nodeName = "''Literal''" and arr = "JRef 40"
       and initialObjToBinding = "JRef 37" and predicate = leftSidePredicateS
       and path = "JStr ''callee.type''" and s = ember_store and a = 38
       and ps = "[JStr ''$'']" and ob = Map.empty]
  have collect: "collectObjectPatternBindingsS (JRef 30) (JRef 37) ember_store
     = (Inr (JArr [JStr ''foo'']), ember_store)"
  proof (rule reads_only_result)
    from declarator show "reads_only (collectObjectPatternBindingsS (JRef 30) (JRef 37))" by blast
    show "fst (collectObjectPatternBindingsS (JRef 30) (JRef 37) ember_store)
            = Inr (JArr [JStr ''foo''])"
      by (simp add: collectObjectPatternBindingsS_def own_keysS_def store_actions
          ember_store_cells)
  qed
  have nodes: "findNodesS (JRef 6) ''Literal'' ember_store
     = (Inr (JArr [JRef 7, JRef 8]), ember_store)"
  proof (rule reads_only_result)
    from call show "reads_only (findNodesS (JRef 6) ''Literal'')" by blast
    show "fst (findNodesS (JRef 6) ''Literal'' ember_store) = Inr (JArr [JRef 7, JRef 8])"
      by (simp add: findNodesS_def store_actions ember_store_cells)
  qed
  have unordered: "findUnorderedPropertyS (JRef 40) ember_store = (Inr (JRef 42), ember_store)"
  proof (rule reads_only_result)
    from call show "reads_only (findUnorderedPropertyS (JRef 40))" by blast
    show "fst (findUnorderedPropertyS (JRef 40) ember_store) = Inr (JRef 42)"
      by code_simp
  qed
  have pred: "\<forall>n. reads_only (leftSidePredicateS n)"
    by (simp add: leaves_store_reads_only leaves_store_leftSidePredicateS)
  have ancestor: "getAncestorS (JRef 23) leftSidePredicateS ember_store
     = Some (Inr (JRef 21), ember_store)"
  proof (rule reads_only_on_return_result)
    from left pred show "reads_only_on_return (getAncestorS (JRef 23) leftSidePredicateS)"
      by blast
    show "map_option fst (getAncestorS (JRef 23) leftSidePredicateS ember_store)
            = Some (Inr (JRef 21))"
      by (simp add: getAncestorS.simps leftSidePredicateS_def store_actions ember_store_cells)
  qed
  have name: "getNameS (JRef 0) ember_store = Some (JStr ''Ember.computed.alias'', ember_store)"
  proof (rule reads_only_on_return_result)
    from call show "reads_only_on_return (getNameS (JRef 0))" by blast
    show "map_option fst (getNameS (JRef 0) ember_store) = Some (JStr ''Ember.computed.alias'')"
      by (simp add: getNameS.simps store_actions ember_store_cells)
  qed
  have size: "getSizeS (JRef 50) ember_store = (Inr (Some 3), ember_store)"
  proof (rule reads_only_result)
    from of_method show "reads_only (getSizeS (JRef 50))" by blast
    show "fst (getSizeS (JRef 50) ember_store) = Inr (Some 3)"
      by (simp add: getSizeS_def store_actions ember_store_cells)
  qed
  have empty: "isEmptyMethodS (JRef 50) ember_store = (Inr (JBool True), ember_store)"
  proof (rule reads_only_result)
    from of_method show "reads_only (isEmptyMethodS (JRef 50))" by blast
    show "fst (isEmptyMethodS (JRef 50) ember_store) = Inr (JBool True)"
      by (simp add: isEmptyMethodS_def le_zero_def store_actions ember_store_cells)
  qed
  have inLeft: "isInLeftSideOfAssignmentExpressionS (JRef 23) ember_store
     = Some (Inr True, ember_store)"
  proof (rule reads_only_on_return_result)
    from left show "reads_only_on_return (isInLeftSideOfAssignmentExpressionS (JRef 23))"
      by blast
    show "map_option fst (isInLeftSideOfAssignmentExpressionS (JRef 23) ember_store)
            = Some (Inr True)"
      by (simp add: isInLeftSideOfAssignmentExpressionS_def getAncestorS.simps
          leftSidePredicateS_def store_actions ember_store_cells)
  qed
  have args: "parseArgsS (JRef 0) ember_store = (Inr (JArr [JStr ''x'']), ember_store)"
  proof (rule reads_only_result)
    from call show "reads_only (parseArgsS (JRef 0))" by blast
    show "fst (parseArgsS (JRef 0) ember_store) = Inr (JArr [JStr ''x''])"
      by (simp add: parseArgsS_def store_actions ember_store_cells)
  qed
  have callee: "parseCalleeS (JRef 0) ember_store
     = Some (Inr (JArr [JStr ''Ember'', JStr ''computed'', JStr ''alias'']), ember_store)"
  proof (rule reads_only_on_return_result)
    from call show "reads_only_on_return (parseCalleeS (JRef 0))" by blast
    show "map_option fst (parseCalleeS (JRef 0) ember_store)
            = Some (Inr (JArr [JStr ''Ember'', JStr ''computed'', JStr ''alias'']))"
      by (simp add: parseCalleeS_def parseCallee_whileS.simps array_push_fresh
          array_reverse_fresh store_actions ember_store_cells)
  qed
  have string_path: "getPropertyValueS (JRef 0) (JStr ''callee.type'') ember_store
     = (Inr (JStr ''MemberExpression''), ember_store)"
  proof (rule reads_only_result)
    have "\<forall>a. JStr ''callee.type'' \<noteq> JRef a" by simp
    with call show "reads_only (getPropertyValueS (JRef 0) (JStr ''callee.type''))" by blast
    show "fst (getPropertyValueS (JRef 0) (JStr ''callee.type'') ember_store)
            = Inr (JStr ''MemberExpression'')"
      by (simp add: getPropertyValueS.simps Let_def array_shift_fresh index_of_key_zero
          store_actions ember_store_cells)
  qed
  have object: "getPropertyValueS (JRef 0) (JRef 3) ember_store = (Inr Undefined, ember_store)"
  proof (rule repeatable_at_result)
    have "ember_store 3
            = ObjectCell [''type'' \<mapsto> JStr ''Identifier'', ''name'' \<mapsto> JStr ''alias'']"
      by (simp add: ember_store_cells)
    with object_path show "repeatable_at (getPropertyValueS (JRef 0) (JRef 3)) ember_store"
      by blast
    show "fst (getPropertyValueS (JRef 0) (JRef 3) ember_store) = Inr Undefined"
      by (simp add: getPropertyValueS.simps Let_def store_actions ember_store_cells)
  qed
  have one: "getPropertyValueS (JRef 0) (JRef 38) ember_store = (Inr Undefined, ember_store)"
  proof (rule repeatable_at_result)
    have "ember_store 38 = ArrayCell [JStr ''$''] \<and> length [JStr ''$''] \<le> 1"
      by (simp add: ember_store_cells)
    with single show "repeatable_at (getPropertyValueS (JRef 0) (JRef 38)) ember_store"
      by blast
    show "fst (getPropertyValueS (JRef 0) (JRef 38) ember_store) = Inr Undefined"
      by (simp add: getPropertyValueS.simps Let_def store_actions ember_store_cells)
  qed
  have "ember_store 10 = ArrayCell [JStr ''callee'', JStr ''type''] \<and>
      2 \<le> length [JStr ''callee'', JStr ''type''] \<and>
      truthy (readS ember_store (JRef 0)
                (to_stringS ember_store (hd [JStr ''callee'', JStr ''type''])))"
    by (simp add: to_stringS_def ember_store_cells)
  with call
  have shifted: "\<exists>n. snd (getPropertyValueS (JRef 0) (JRef 10) ember_store)
          = ember_store(10 := ArrayCell (drop (Suc n) [JStr ''callee'', JStr ''type'']))"
    by blast
  from collect nodes unordered ancestor name size empty inLeft args callee string_path
    object one shifted
  show ?thesis by (intro conjI)
qed

end
